theory Spec2Isabelle
  imports Complex_Main
begin

section \<open>JavaScript strings\<close>

text \<open>
  A JavaScript string is a sequence of UTF-16 code units. The model uses \<open>string\<close>
  (a list of \<open>char\<close>), each \<open>char\<close> standing for one code unit in the range
  0..255, so \<open>length\<close> is the \<open>.length\<close> of the source string. The string methods
  used by the source are written out below; each is executable.
\<close>

text \<open>\<open>s.startsWith(p)\<close>\<close>

fun startsWith :: "string \<Rightarrow> string \<Rightarrow> bool" where
  "startsWith s [] = True"
| "startsWith [] (p # ps) = False"
| "startsWith (c # cs) (p # ps) = (c = p \<and> startsWith cs ps)"

text \<open>\<open>s.endsWith(p)\<close>\<close>

definition endsWith :: "string \<Rightarrow> string \<Rightarrow> bool" where
  "endsWith s p = startsWith (rev s) (rev p)"

text \<open>\<open>s.includes(p)\<close>: \<open>p\<close> occurs at some position of \<open>s\<close>.\<close>

fun includes_str :: "string \<Rightarrow> string \<Rightarrow> bool" where
  "includes_str [] p = (p = [])"
| "includes_str (c # cs) p = (startsWith (c # cs) p \<or> includes_str cs p)"

text \<open>
  \<open>s.split(sep)\<close> for a separator of one code unit. The result is never empty:
  \<open>"".split("/")\<close> is \<open>[""]\<close>.
\<close>

fun split_on :: "char \<Rightarrow> string \<Rightarrow> string list" where
  "split_on sep [] = [[]]"
| "split_on sep (c # cs) =
     (if c = sep then [] # split_on sep cs
      else (case split_on sep cs of
              [] \<Rightarrow> [[c]]
            | seg # segs \<Rightarrow> (c # seg) # segs))"

text \<open>
  White space as \<open>String.prototype.trim\<close>, the regular expression class \<open>\s\<close> and
  the number parsers see it (the WhiteSpace and LineTerminator code units below 256:
  TAB, LF, VT, FF, CR, SP, NBSP), and the line terminators that the regular expression
  \<open>.\<close> refuses (LF, CR).
\<close>

definition is_ws :: "char \<Rightarrow> bool" where
  "is_ws c = (c \<in> {CHR 0x09, CHR 0x0A, CHR 0x0B, CHR 0x0C, CHR 0x0D, CHR 0x20, CHR 0xA0})"

definition is_line_terminator :: "char \<Rightarrow> bool" where
  "is_line_terminator c = (c = CHR 0x0A \<or> c = CHR 0x0D)"

text \<open>\<open>s.trim()\<close>\<close>

definition trim :: "string \<Rightarrow> string" where
  "trim s = rev (dropWhile is_ws (rev (dropWhile is_ws s)))"

text \<open>
  \<open>s.toLowerCase()\<close> on code units below 256: \<open>A\<close>..\<open>Z\<close> and the Latin-1 capitals
  (0xC0..0xDE without the multiplication sign 0xD7) move up by 32.
\<close>

definition lower_char :: "char \<Rightarrow> char" where
  "lower_char c =
     (let n = (of_char c :: nat)
      in if (65 \<le> n \<and> n \<le> 90) \<or> (192 \<le> n \<and> n \<le> 222 \<and> n \<noteq> 215)
         then char_of (n + 32) else c)"

definition toLowerCase :: "string \<Rightarrow> string" where
  "toLowerCase s = map lower_char s"

text \<open>
  \<open>s.indexOf(p, from)\<close>: the first position at or after \<open>from\<close> where \<open>p\<close> occurs;
  \<open>None\<close> stands for the source's \<open>-1\<close>. \<open>first_occurrence\<close> is the search from
  position 0.
\<close>

fun first_occurrence :: "string \<Rightarrow> string \<Rightarrow> nat option" where
  "first_occurrence [] p = (if p = [] then Some 0 else None)"
| "first_occurrence (c # cs) p =
     (if startsWith (c # cs) p then Some 0
      else map_option Suc (first_occurrence cs p))"

definition indexOf :: "string \<Rightarrow> string \<Rightarrow> nat \<Rightarrow> nat option" where
  "indexOf s p from =
     (let k = min from (length s)
      in map_option (\<lambda>i. i + k) (first_occurrence (drop k s) p))"

text \<open>\<open>s.slice(a, b)\<close> and \<open>s.slice(a)\<close> for indices that are not negative.\<close>

definition slice :: "string \<Rightarrow> nat \<Rightarrow> nat \<Rightarrow> string" where
  "slice s a b = take (b - a) (drop a s)"

definition slice_from :: "string \<Rightarrow> nat \<Rightarrow> string" where
  "slice_from s a = drop a s"

section \<open>The path validator (handler.ts, \<open>isValidPath\<close>)\<close>

text \<open>
  \<^verbatim>\<open>
  function isValidPath(path: string): boolean {
    if (!path.startsWith("/") || path.startsWith("//")) return false;
    if (path.includes("://")) return false;
    const segments = path.split("/");
    if (segments.some((s) => s === ".." || s === ".")) return false;
    return true;
  }
  \<close>
\<close>

definition isValidPath :: "string \<Rightarrow> bool" where
  "isValidPath path =
     (if \<not> startsWith path ''/'' \<or> startsWith path ''//'' then False
      else if includes_str path ''://'' then False
      else if list_ex (\<lambda>s. s = ''..'' \<or> s = ''.'') (split_on CHR ''/'' path) then False
      else True)"

section \<open>Numbers\<close>

text \<open>
  A JavaScript number as the source's comparisons see it: not-a-number, a finite double
  or an infinity. A finite double is given by its exact value, a rational; the two zeros
  are one value, which no comparison of the source tells apart.
\<close>

datatype jsnum = NaN | Num rat | PosInf | NegInf

text \<open>\<open>x > 0\<close>, false for NaN.\<close>

fun js_gt_zero :: "jsnum \<Rightarrow> bool" where
  "js_gt_zero NaN = False"
| "js_gt_zero (Num q) = (0 < q)"
| "js_gt_zero PosInf = True"
| "js_gt_zero NegInf = False"

definition is_digit :: "char \<Rightarrow> bool" where
  "is_digit c = (48 \<le> (of_char c :: nat) \<and> (of_char c :: nat) \<le> 57)"

definition digit_val :: "char \<Rightarrow> nat" where
  "digit_val c = (of_char c :: nat) - 48"

definition decimal :: "string \<Rightarrow> nat" where
  "decimal ds = foldl (\<lambda>a c. 10 * a + digit_val c) 0 ds"

text \<open>
  The exponent part of a decimal literal: \<open>e\<close> or \<open>E\<close>, an optional sign, and at
  least one digit; anything else is no exponent (value 0), as the longest-prefix rule
  of \<open>parseFloat\<close> has it.
\<close>

definition exponent_part :: "string \<Rightarrow> int" where
  "exponent_part s =
     (case s of
        [] \<Rightarrow> 0
      | c # r \<Rightarrow>
          if c = CHR ''e'' \<or> c = CHR ''E'' then
            (case r of
               [] \<Rightarrow> 0
             | d # r' \<Rightarrow>
                 if d = CHR ''+'' then
                   (if takeWhile is_digit r' = [] then 0
                    else int (decimal (takeWhile is_digit r')))
                 else if d = CHR ''-'' then
                   (if takeWhile is_digit r' = [] then 0
                    else - int (decimal (takeWhile is_digit r')))
                 else
                   (if takeWhile is_digit r = [] then 0
                    else int (decimal (takeWhile is_digit r))))
          else 0)"

text \<open>
  Rounding to a double (IEEE 754 binary64, round to nearest, ties to even), as
  \<open>parseFloat\<close> rounds the value of the decimal text (the language standard demands
  this rounding for texts of up to 20 significant digits, and the engines round longer
  texts the same way). The value is the quotient of two natural numbers \<open>a\<close> and
  \<open>b\<close>, with \<open>b\<close> positive.

  \<open>bit_length n\<close> is the number of binary digits of \<open>n\<close>; \<open>floor_log2 a b\<close> is the
  exponent \<open>E\<close> with \<open>2^E \<le> a/b < 2^(E+1)\<close>; \<open>round_half_even num den\<close> is the
  integer nearest to \<open>num/den\<close>, the even one of two that are equally near.
\<close>

function bit_length :: "nat \<Rightarrow> nat" where
  "bit_length n = (if n = 0 then 0 else Suc (bit_length (n div 2)))"
  by pat_completeness auto
termination
  by (relation "measure (\<lambda>n. n)") auto

declare bit_length.simps [simp del]

definition pow2 :: "int \<Rightarrow> rat" where
  "pow2 e = (if 0 \<le> e then 2 ^ nat e else 1 / 2 ^ nat (- e))"

definition ratio_ge_pow2 :: "nat \<Rightarrow> nat \<Rightarrow> int \<Rightarrow> bool" where
  "ratio_ge_pow2 a b d = (if 0 \<le> d then b * 2 ^ nat d \<le> a else b \<le> a * 2 ^ nat (- d))"

definition floor_log2 :: "nat \<Rightarrow> nat \<Rightarrow> int" where
  "floor_log2 a b =
     (let d = int (bit_length a) - int (bit_length b)
      in if ratio_ge_pow2 a b d then d else d - 1)"

definition round_half_even :: "nat \<Rightarrow> nat \<Rightarrow> nat" where
  "round_half_even num den =
     (let q = num div den; r = num mod den
      in if 2 * r < den then q
         else if den < 2 * r then q + 1
         else if even q then q else q + 1)"

text \<open>
  A value of \<open>2^1024\<close> or more is beyond every double and gives infinity; a value of
  at most \<open>2^-1075\<close>, half the least positive double, gives zero. In between, the
  result is a multiple \<open>n * 2^e\<close> of the spacing \<open>2^e\<close> of the doubles around the
  value, where \<open>e\<close> is \<open>E - 52\<close> and at least \<open>-1074\<close> (the subnormal spacing); a
  result that reaches \<open>2^1024\<close> by rounding up gives infinity.
\<close>

definition round_to_double :: "nat \<Rightarrow> nat \<Rightarrow> jsnum" where
  "round_to_double a b =
     (if a = 0 then Num 0
      else if b * 2 ^ 1024 \<le> a then PosInf
      else if a * 2 ^ 1075 \<le> b then Num 0
      else
        let E = floor_log2 a b;
            e = max (E - 52) (- 1074);
            n = (if 0 \<le> e then round_half_even a (b * 2 ^ nat e)
                 else round_half_even (a * 2 ^ nat (- e)) b)
        in if e = 971 \<and> 2 ^ 53 \<le> n then PosInf
           else Num (of_nat n * pow2 e))"

text \<open>\<open>-x\<close>\<close>

fun js_negate :: "jsnum \<Rightarrow> jsnum" where
  "js_negate NaN = NaN"
| "js_negate (Num q) = Num (- q)"
| "js_negate PosInf = NegInf"
| "js_negate NegInf = PosInf"

text \<open>
  \<open>parseFloat(s)\<close>: leading white space is skipped, then the longest prefix that is a
  decimal literal (an optional sign, then \<open>Infinity\<close>, or digits with an optional
  fraction and exponent) gives the value; with no such prefix the result is NaN. The
  digits \<open>ip\<close> before and \<open>fp\<close> after the point and the exponent \<open>x\<close> denote
  \<open>decimal (ip @ fp) * 10^(x - length fp)\<close>, which is rounded to a double.
\<close>

definition parseFloat :: "string \<Rightarrow> jsnum" where
  "parseFloat s =
     (let t = dropWhile is_ws s;
          neg = startsWith t ''-'';
          u = (if startsWith t ''+'' \<or> startsWith t ''-'' then drop 1 t else t)
      in if startsWith u ''Infinity'' then (if neg then NegInf else PosInf)
         else
           let ip = takeWhile is_digit u;
               r1 = dropWhile is_digit u;
               fp = (if startsWith r1 ''.'' then takeWhile is_digit (drop 1 r1) else []);
               r2 = (if startsWith r1 ''.'' then dropWhile is_digit (drop 1 r1) else r1)
           in if ip = [] \<and> fp = [] then NaN
              else
                let m = decimal (ip @ fp);
                    x = exponent_part r2 - int (length fp);
                    v = (if 0 \<le> x then round_to_double (m * 10 ^ nat x) 1
                         else round_to_double m (10 ^ nat (- x)))
                in if neg then js_negate v else v)"

text \<open>
  \<open>parseInt(s, 10)\<close>: leading white space is skipped, then an optional sign and the
  longest run of decimal digits; \<open>None\<close> stands for NaN.
\<close>

definition parseInt10 :: "string \<Rightarrow> int option" where
  "parseInt10 s =
     (let t = dropWhile is_ws s;
          neg = startsWith t ''-'';
          u = (if startsWith t ''+'' \<or> startsWith t ''-'' then drop 1 t else t);
          ds = takeWhile is_digit u
      in if ds = [] then None
         else Some (if neg then - int (decimal ds) else int (decimal ds)))"

section \<open>Signal detection (detect.ts)\<close>

text \<open>The list \<open>BOT_USER_AGENTS\<close> of constants.ts.\<close>

definition BOT_USER_AGENTS :: "string list" where
  "BOT_USER_AGENTS =
     [''ChatGPT-User'', ''ClaudeBot'', ''GPTBot'', ''PerplexityBot'', ''Applebot-Extended'',
      ''Google-Extended'', ''CCBot'', ''anthropic-ai'', ''cohere-ai'', ''Claude-SearchTool'']"

text \<open>
  The signal: \<open>{type: "md-suffix", originalPath}\<close>, \<open>{type: "accept-header", quality}\<close>
  or \<open>{type: "user-agent", botName}\<close>.
\<close>

datatype LlmSignal = MdSuffix string | AcceptHeader jsnum | UserAgent string

text \<open>
  The options of \<open>detectLlmSignal\<close> after the defaults of its destructuring have been
  applied; \<open>default_options\<close> is what an absent \<open>options\<close> argument gives.
\<close>

record detect_options =
  enableMdSuffix :: bool
  enableUserAgentDetection :: bool
  additionalBotUserAgents :: "string list"

definition default_options :: detect_options where
  "default_options =
     \<lparr>enableMdSuffix = True, enableUserAgentDetection = True, additionalBotUserAgents = []\<rparr>"

text \<open>
  One entry of the accept header, inside the loop of \<open>parseAcceptMarkdown\<close>:
  \<^verbatim>\<open>
    const [mediaType, ...params] = part.split(";").map((s) => s.trim());
    if (mediaType?.toLowerCase() === "text/markdown") {
      const qParam = params.find((p) => p.startsWith("q="));
      if (qParam) {
        const q = parseFloat(qParam.slice(2));
        return isNaN(q) ? 1 : q;
      }
      return 1;
    }
  \<close>
  \<open>entry_quality\<close> is \<open>None\<close> when the loop goes on to the next entry and the
  returned number otherwise.
\<close>

definition entry_quality :: "string \<Rightarrow> jsnum option" where
  "entry_quality part =
     (case map trim (split_on CHR '';'' part) of
        [] \<Rightarrow> None
      | mediaType # params \<Rightarrow>
          if toLowerCase mediaType = ''text/markdown'' then
            (case find (\<lambda>p. startsWith p ''q='') params of
               None \<Rightarrow> Some (Num 1)
             | Some qParam \<Rightarrow>
                 if qParam = [] then Some (Num 1)
                 else (case parseFloat (slice_from qParam 2) of
                         NaN \<Rightarrow> Some (Num 1)
                       | q \<Rightarrow> Some q))
          else None)"

text \<open>The loop \<open>for (const part of parts)\<close>, ending in \<open>return 0\<close>.\<close>

fun accept_loop :: "string list \<Rightarrow> jsnum" where
  "accept_loop [] = Num 0"
| "accept_loop (part # parts) =
     (case entry_quality part of
        Some q \<Rightarrow> q
      | None \<Rightarrow> accept_loop parts)"

definition parseAcceptMarkdown :: "string \<Rightarrow> jsnum" where
  "parseAcceptMarkdown accept = accept_loop (map trim (split_on CHR '','' accept))"

text \<open>The loop over the bot patterns: the first pattern that the user agent includes.\<close>

fun bot_loop :: "string \<Rightarrow> string list \<Rightarrow> LlmSignal option" where
  "bot_loop userAgent [] = None"
| "bot_loop userAgent (pattern # patterns) =
     (if includes_str userAgent pattern then Some (UserAgent pattern)
      else bot_loop userAgent patterns)"

text \<open>
  \<open>detectLlmSignal(pathname, accept, userAgent, options)\<close>. A \<open>null\<close> header is
  \<open>None\<close>; \<open>if (accept)\<close> and \<open>userAgent\<close> in a condition are false for \<open>null\<close>
  and for the empty string.
\<close>

definition detectLlmSignal ::
  "string \<Rightarrow> string option \<Rightarrow> string option \<Rightarrow> detect_options \<Rightarrow> LlmSignal option" where
  "detectLlmSignal pathname accept userAgent options =
     (if enableMdSuffix options \<and> endsWith pathname ''.md'' then
        (let originalPath =
               (if take (length pathname - 3) pathname = [] then ''/''
                else take (length pathname - 3) pathname)
         in Some (MdSuffix originalPath))
      else
        (case (case accept of
                 None \<Rightarrow> None
               | Some a \<Rightarrow>
                   if a = [] then None
                   else (let quality = parseAcceptMarkdown a
                         in if js_gt_zero quality then Some (AcceptHeader quality) else None)) of
           Some sig \<Rightarrow> Some sig
         | None \<Rightarrow>
             (case userAgent of
                None \<Rightarrow> None
              | Some ua \<Rightarrow>
                  if enableUserAgentDetection options \<and> ua \<noteq> [] then
                    bot_loop ua (BOT_USER_AGENTS @ additionalBotUserAgents options)
                  else None)))"

text \<open>
  What the claims say of one entry of the accept header: whether its media type token,
  trimmed and in lower case, is the target type, and the quality it declares (the value
  of the first parameter that starts with \<open>q=\<close>; 1 when there is none or when the value
  is not a number).
\<close>

definition names_markdown :: "string \<Rightarrow> bool" where
  "names_markdown entry =
     (toLowerCase (trim (hd (split_on CHR '';'' entry))) = ''text/markdown'')"

definition declared_quality :: "string \<Rightarrow> jsnum" where
  "declared_quality entry =
     (case find (\<lambda>p. startsWith p ''q='') (map trim (tl (split_on CHR '';'' entry))) of
        None \<Rightarrow> Num 1
      | Some qParam \<Rightarrow>
          (case parseFloat (drop 2 qParam) of
             NaN \<Rightarrow> Num 1
           | q \<Rightarrow> q))"

section \<open>Frontmatter (fs.ts, \<open>parseFrontmatter\<close>)\<close>

text \<open>
  The regular expression \<open>/^\s*redirect\s*:\s*(.+?)\s*$/\<close> is matched by
  backtracking, as the source's engine does. A pattern is a list of items: a literal
  code unit, a greedy star over a class (\<open>\s*\<close>), the capturing lazy plus over a class
  (\<open>(.+?)\<close>, carrying what it has taken so far, last code unit first) and the
  end-of-input anchor \<open>$\<close> (the expression has no \<open>m\<close> flag). The pattern begins with
  \<open>^\<close>, so the only attempt is at position 0.
\<close>

datatype rx_class = Space | AnyChar

fun in_class :: "rx_class \<Rightarrow> char \<Rightarrow> bool" where
  "in_class Space c = is_ws c"
| "in_class AnyChar c = (\<not> is_line_terminator c)"

datatype rx_item = Lit char | GreedyStar rx_class | LazyPlusCapture rx_class string | EndOfInput

text \<open>
  \<open>rx_match items s\<close> is the captured group when \<open>items\<close> match a prefix of \<open>s\<close>. The
  greedy star takes a code unit and goes on, and gives it back when the rest fails; the
  lazy plus takes one code unit, then tries the rest before it takes another.
\<close>

fun rx_match :: "rx_item list \<Rightarrow> string \<Rightarrow> string option" where
  "rx_match [] s = Some []"
| "rx_match (EndOfInput # items) s = (if s = [] then rx_match items s else None)"
| "rx_match (Lit c # items) [] = None"
| "rx_match (Lit c # items) (x # xs) = (if x = c then rx_match items xs else None)"
| "rx_match (GreedyStar k # items) [] = rx_match items []"
| "rx_match (GreedyStar k # items) (x # xs) =
     (if in_class k x then
        (case rx_match (GreedyStar k # items) xs of
           Some cap \<Rightarrow> Some cap
         | None \<Rightarrow> rx_match items (x # xs))
      else rx_match items (x # xs))"
| "rx_match (LazyPlusCapture k taken # items) s =
     (case (if taken = [] then None else rx_match items s) of
        Some _ \<Rightarrow> Some (rev taken)
      | None \<Rightarrow>
          (case s of
             [] \<Rightarrow> None
           | x # xs \<Rightarrow>
               if in_class k x then rx_match (LazyPlusCapture k (x # taken) # items) xs
               else None))"

definition REDIRECT_RE :: "rx_item list" where
  "REDIRECT_RE =
     [GreedyStar Space] @ map Lit ''redirect'' @
     [GreedyStar Space, Lit CHR '':'', GreedyStar Space, LazyPlusCapture AnyChar [],
      GreedyStar Space, EndOfInput]"

text \<open>\<open>line.match(/^\s*redirect\s*:\s*(.+?)\s*$/)\<close>, giving \<open>match[1]\<close>.\<close>

definition match_redirect :: "string \<Rightarrow> string option" where
  "match_redirect line = rx_match REDIRECT_RE line"

text \<open>
  The loop over the lines of the block: the first line that matches gives the redirect.
  \<^verbatim>\<open>
    for (const line of frontmatter.split("\n")) {
      const match = line.match(/^\s*redirect\s*:\s*(.+?)\s*$/);
      if (match) { redirect = match[1]; break; }
    }
  \<close>
\<close>

fun redirect_loop :: "string list \<Rightarrow> string option" where
  "redirect_loop [] = None"
| "redirect_loop (line # lines) =
     (case match_redirect line of
        Some v \<Rightarrow> Some v
      | None \<Rightarrow> redirect_loop lines)"

text \<open>\<open>s.replace(/^\r?\n/, "")\<close>: one leading line break is removed.\<close>

definition strip_leading_newline :: "string \<Rightarrow> string" where
  "strip_leading_newline s =
     (if startsWith s [CHR 0x0D, CHR 0x0A] then drop 2 s
      else if startsWith s [CHR 0x0A] then drop 1 s
      else s)"

record frontmatter =
  redirect :: "string option"
  body :: string

text \<open>
  \<^verbatim>\<open>
  export function parseFrontmatter(content: string) {
    if (!content.startsWith("---")) return { body: content };
    const endIndex = content.indexOf("---", 3);
    if (endIndex === -1) return { body: content };
    const frontmatter = content.slice(3, endIndex);
    const body = content.slice(endIndex + 3).replace(/^\r?\n/, "");
    let redirect: string | undefined;
    for (const line of frontmatter.split("\n")) { ... }
    return { redirect, body };
  }
  \<close>
\<close>

definition parseFrontmatter :: "string \<Rightarrow> frontmatter" where
  "parseFrontmatter content =
     (if \<not> startsWith content ''---'' then \<lparr>redirect = None, body = content\<rparr>
      else
        (case indexOf content ''---'' 3 of
           None \<Rightarrow> \<lparr>redirect = None, body = content\<rparr>
         | Some endIndex \<Rightarrow>
             \<lparr>redirect = redirect_loop (split_on CHR 0x0A (slice content 3 endIndex)),
              body = strip_leading_newline (slice_from content (endIndex + 3))\<rparr>))"

text \<open>
  A line that starts, after white space, with the key \<open>redirect\<close>, white space and a
  colon: the part of the regular expression before the value.
\<close>

definition redirect_key :: "string \<Rightarrow> bool" where
  "redirect_key line =
     (startsWith (dropWhile is_ws line) ''redirect'' \<and>
      startsWith (dropWhile is_ws (drop 8 (dropWhile is_ws line))) '':'')"

section \<open>What a request does to the outside\<close>

text \<open>
  The file system, the request, the URL parser, the HTTP client and the converter are
  outside the code; they are the fields of a \<open>world\<close>, fixed while one request is
  resolved. A call that throws or rejects gives \<open>None\<close>. What the code does to the
  outside is recorded, in order, as a list of events.
\<close>

record url =
  url_host :: string
  url_pathname :: string
  url_href :: string

record response =
  status :: nat
  location :: "string option"
  content_length :: "string option"
  text_body :: "string option"

record world =
  cwd :: string
  readFile :: "string \<Rightarrow> string option"
  readdir :: "string \<Rightarrow> string list option"
  nextUrl_protocol :: string
  nextUrl_host :: string
  cookie :: "string option"
  parse_url :: "string \<Rightarrow> string option \<Rightarrow> url option"
  fetch :: "string \<Rightarrow> (string \<times> string) list \<Rightarrow> response option"
  htmlToMarkdown :: "string \<Rightarrow> string option"

datatype event =
    Attempt string nat
  | ReadFile string
  | ReadDir string
  | Fetch url "(string \<times> string) list"
  | ReadBody
  | Convert string

section \<open>The artifact store (fs.ts)\<close>

text \<open>\<open>isPathWithinDirectory(filePath, directory)\<close>\<close>

definition isPathWithinDirectory :: "string \<Rightarrow> string \<Rightarrow> bool" where
  "isPathWithinDirectory filePath directory =
     (startsWith filePath (directory @ ''/'') \<or> filePath = directory)"

text \<open>
  \<open>path.resolve\<close> and \<open>path.join\<close> of Node on POSIX paths, for an absolute first
  argument (\<open>process.cwd()\<close> is absolute): the arguments are put together with \<open>/\<close>, an
  absolute argument starting over and an empty one skipped; then empty and \<open>.\<close>
  segments go, and \<open>..\<close> removes the segment before it (nothing at the root).
\<close>

fun normalize_segments :: "string list \<Rightarrow> string list \<Rightarrow> string list" where
  "normalize_segments kept [] = rev kept"
| "normalize_segments kept (seg # segs) =
     (if seg = [] \<or> seg = ''.'' then normalize_segments kept segs
      else if seg = ''..'' then normalize_segments (drop 1 kept) segs
      else normalize_segments (seg # kept) segs)"

fun join_segments :: "string list \<Rightarrow> string" where
  "join_segments [] = []"
| "join_segments (seg # segs) = CHR ''/'' # seg @ join_segments segs"

definition normalize_absolute :: "string \<Rightarrow> string" where
  "normalize_absolute p =
     (let segs = normalize_segments [] (split_on CHR ''/'' p)
      in if segs = [] then ''/'' else join_segments segs)"

definition path_resolve :: "string \<Rightarrow> string list \<Rightarrow> string" where
  "path_resolve base args =
     normalize_absolute
       (foldl (\<lambda>acc a. if a = [] then acc
                        else if startsWith a ''/'' then a
                        else acc @ ''/'' @ a) base args)"

definition path_join :: "string \<Rightarrow> string \<Rightarrow> string" where
  "path_join a b = normalize_absolute (a @ ''/'' @ b)"

text \<open>\<open>tryReadFile(filePath)\<close>: the read is recorded; a failed read is \<open>null\<close>.\<close>

definition tryReadFile :: "world \<Rightarrow> string \<Rightarrow> event list \<Rightarrow> string option \<times> event list" where
  "tryReadFile w filePath tr = (readFile w filePath, tr @ [ReadFile filePath])"

text \<open>
  The loop over the route groups of \<open>findPageMd\<close>:
  \<^verbatim>\<open>
    for (const group of routeGroups) {
      const groupPath = resolve(appDir, group, ...segments, "page.md");
      if (!isPathWithinDirectory(groupPath, appDir)) continue;
      const content = await tryReadFile(groupPath);
      if (content !== null) return content;
    }
    return null;
  \<close>
\<close>

fun group_loop ::
  "world \<Rightarrow> string \<Rightarrow> string list \<Rightarrow> string list \<Rightarrow> event list \<Rightarrow> string option \<times> event list" where
  "group_loop w appDir segments [] tr = (None, tr)"
| "group_loop w appDir segments (grp # grps) tr =
     (let groupPath = path_resolve appDir ([grp] @ segments @ [''page.md''])
      in if \<not> isPathWithinDirectory groupPath appDir
         then group_loop w appDir segments grps tr
         else (case tryReadFile w groupPath tr of
                 (Some content, tr') \<Rightarrow> (Some content, tr')
               | (None, tr') \<Rightarrow> group_loop w appDir segments grps tr'))"

definition appDir_of :: "world \<Rightarrow> string" where
  "appDir_of w = path_join (cwd w) ''app''"

text \<open>
  \<^verbatim>\<open>
    const normalizedPath = requestPath === "/" ? "" : requestPath.replace(/^\//, "");
    const segments = normalizedPath ? normalizedPath.split("/") : [];
  \<close>
\<close>

definition segments_of :: "string \<Rightarrow> string list" where
  "segments_of requestPath =
     (let normalizedPath =
            (if requestPath = ''/'' then []
             else if startsWith requestPath ''/'' then drop 1 requestPath
             else requestPath)
      in if normalizedPath \<noteq> [] then split_on CHR ''/'' normalizedPath else [])"

text \<open>\<open>findPageMd(requestPath)\<close>\<close>

definition findPageMd :: "world \<Rightarrow> string \<Rightarrow> event list \<Rightarrow> string option \<times> event list" where
  "findPageMd w requestPath tr =
     (let appDir = appDir_of w;
          segments = segments_of requestPath;
          directPath = path_resolve appDir (segments @ [''page.md''])
      in if \<not> isPathWithinDirectory directPath appDir then (None, tr)
         else (case tryReadFile w directPath tr of
                 (Some direct, tr1) \<Rightarrow> (Some direct, tr1)
               | (None, tr1) \<Rightarrow>
                   (case readdir w appDir of
                      None \<Rightarrow> (None, tr1 @ [ReadDir appDir])
                    | Some topDirs \<Rightarrow>
                        group_loop w appDir segments
                          (filter (\<lambda>d. startsWith d ''('' \<and> endsWith d '')'') topDirs)
                          (tr1 @ [ReadDir appDir]))))"

text \<open>The candidate paths of a request path: the direct one and the one under a route group.\<close>

definition direct_candidate :: "world \<Rightarrow> string \<Rightarrow> string" where
  "direct_candidate w requestPath =
     path_resolve (appDir_of w) (segments_of requestPath @ [''page.md''])"

definition group_candidate :: "world \<Rightarrow> string \<Rightarrow> string \<Rightarrow> string" where
  "group_candidate w grp requestPath =
     path_resolve (appDir_of w) ([grp] @ segments_of requestPath @ [''page.md''])"

section \<open>The resolution pipeline (handler.ts, \<open>resolveMarkdown\<close>)\<close>

definition INTERNAL_FETCH_HEADER :: string where
  "INTERNAL_FETCH_HEADER = ''x-llm-internal-fetch''"

definition MAX_REDIRECTS :: nat where
  "MAX_REDIRECTS = 3"

definition MAX_HTML_SIZE :: nat where
  "MAX_HTML_SIZE = 5 * 1024 * 1024"

definition PUBLIC_CACHE :: string where
  "PUBLIC_CACHE = ''public, max-age=300, s-maxage=3600''"

definition PRIVATE_CACHE :: string where
  "PRIVATE_CACHE = ''private, max-age=300''"

text \<open>
  The options of \<open>resolveMarkdown\<close> that stay the same along a resolution:
  \<open>enableAutoConversion\<close> and \<open>config?.internalBaseUrl\<close>. The redirect depth is an
  argument of its own.
\<close>

record resolve_options =
  enableAutoConversion :: bool
  internalBaseUrl :: "string option"

record resolved =
  content :: string
  cacheControl :: string

text \<open>\<open>response.ok\<close>\<close>

definition response_ok :: "response \<Rightarrow> bool" where
  "response_ok r = (200 \<le> status r \<and> status r \<le> 299)"

text \<open>
  \<^verbatim>\<open>
    const contentLength = response.headers.get("content-length");
    if (contentLength && parseInt(contentLength, 10) > MAX_HTML_SIZE) { return null; }
  \<close>
  The condition of this \<open>if\<close>; a comparison with NaN is false.
\<close>

definition declared_too_large :: "response \<Rightarrow> bool" where
  "declared_too_large r =
     (case content_length r of
        None \<Rightarrow> False
      | Some cl \<Rightarrow>
          cl \<noteq> [] \<and>
          (case parseInt10 cl of
             None \<Rightarrow> False
           | Some n \<Rightarrow> n > int MAX_HTML_SIZE))"

text \<open>
  \<^verbatim>\<open>
    const baseUrl = config?.internalBaseUrl ??
      `${request.nextUrl.protocol}//${request.nextUrl.host}`;
  \<close>
\<close>

definition baseUrl_of :: "world \<Rightarrow> resolve_options \<Rightarrow> string" where
  "baseUrl_of w opts =
     (case internalBaseUrl opts of
        Some b \<Rightarrow> b
      | None \<Rightarrow> nextUrl_protocol w @ ''//'' @ nextUrl_host w)"

text \<open>
  The headers of the internal fetch: the marker, \<open>Accept: text/html\<close>, and the
  request's cookie when it has one that is not empty.
\<close>

definition fetch_headers :: "world \<Rightarrow> (string \<times> string) list" where
  "fetch_headers w =
     [(INTERNAL_FETCH_HEADER, ''1''), (''Accept'', ''text/html'')] @
     (case cookie w of
        None \<Rightarrow> []
      | Some c \<Rightarrow> if c = [] then [] else [(''Cookie'', c)])"

text \<open>
  The \<open>try\<close> block of \<open>resolveMarkdown\<close> (the live fetch), up to the point where it
  either returns a result or calls \<open>resolveMarkdown\<close> again for the path of a same-host
  redirect. Every exception inside the block is caught and gives \<open>null\<close>.
\<close>

datatype live_outcome = Follow string | Finished "resolved option"

definition live_fetch ::
  "world \<Rightarrow> resolve_options \<Rightarrow> string \<Rightarrow> nat \<Rightarrow> event list \<Rightarrow> live_outcome \<times> event list" where
  "live_fetch w opts path redirectDepth tr =
     (let baseUrl = baseUrl_of w opts
      in case parse_url w path (Some baseUrl) of
           None \<Rightarrow> (Finished None, tr)
         | Some u \<Rightarrow>
         (case parse_url w baseUrl None of
           None \<Rightarrow> (Finished None, tr)
         | Some base \<Rightarrow>
           if url_host u \<noteq> url_host base then (Finished None, tr)
           else
             (let tr1 = tr @ [Fetch u (fetch_headers w)]
              in case fetch w (url_href u) (fetch_headers w) of
                   None \<Rightarrow> (Finished None, tr1)
                 | Some r \<Rightarrow>
                   if redirectDepth < MAX_REDIRECTS \<and> 300 \<le> status r \<and> status r < 400 then
                     (case location r of
                        None \<Rightarrow> (Finished None, tr1)
                      | Some loc \<Rightarrow>
                          if loc = [] then (Finished None, tr1)
                          else (case parse_url w loc (Some (url_href u)) of
                                  None \<Rightarrow> (Finished None, tr1)
                                | Some redirectUrl \<Rightarrow>
                                    if url_host redirectUrl = url_host base
                                    then (Follow (url_pathname redirectUrl), tr1)
                                    else (Finished None, tr1)))
                   else if \<not> response_ok r then (Finished None, tr1)
                   else if declared_too_large r then (Finished None, tr1)
                   else
                     (case text_body r of
                        None \<Rightarrow> (Finished None, tr1 @ [ReadBody])
                      | Some html \<Rightarrow>
                          if trim html = [] \<or> length html > MAX_HTML_SIZE
                          then (Finished None, tr1 @ [ReadBody])
                          else (case htmlToMarkdown w html of
                                  None \<Rightarrow> (Finished None, tr1 @ [ReadBody, Convert html])
                                | Some md \<Rightarrow>
                                    (Finished (Some \<lparr>content = md, cacheControl = PRIVATE_CACHE\<rparr>),
                                     tr1 @ [ReadBody, Convert html]))))))"

lemma live_fetch_Follow_depth:
  "live_fetch w opts path redirectDepth tr = (Follow p, tr') \<Longrightarrow> redirectDepth < MAX_REDIRECTS"
  by (auto simp: live_fetch_def Let_def split: option.splits if_splits)

text \<open>
  \<open>resolveMarkdown(request, path, {enableAutoConversion, config, redirectDepth})\<close>.
  Each call records \<open>Attempt path redirectDepth\<close> first.
\<close>

function resolveMarkdown ::
  "world \<Rightarrow> resolve_options \<Rightarrow> string \<Rightarrow> nat \<Rightarrow> event list \<Rightarrow> resolved option \<times> event list" where
  "resolveMarkdown w opts path redirectDepth tr =
     (case findPageMd w path (tr @ [Attempt path redirectDepth]) of
        (Some pageMd, tr1) \<Rightarrow>
          (case redirect (parseFrontmatter pageMd) of
             None \<Rightarrow>
               (Some \<lparr>content = body (parseFrontmatter pageMd), cacheControl = PUBLIC_CACHE\<rparr>, tr1)
           | Some target \<Rightarrow>
               if target = [] then
                 (Some \<lparr>content = body (parseFrontmatter pageMd), cacheControl = PUBLIC_CACHE\<rparr>, tr1)
               else if \<not> isValidPath target \<or> redirectDepth \<ge> MAX_REDIRECTS then (None, tr1)
               else resolveMarkdown w opts target (redirectDepth + 1) tr1)
      | (None, tr1) \<Rightarrow>
          if \<not> enableAutoConversion opts then (None, tr1)
          else (case live_fetch w opts path redirectDepth tr1 of
                  (Follow target, tr2) \<Rightarrow> resolveMarkdown w opts target (redirectDepth + 1) tr2
                | (Finished result, tr2) \<Rightarrow> (result, tr2)))"
  by pat_completeness auto
termination
proof (relation "measure (\<lambda>(w, opts, path, redirectDepth, tr). MAX_REDIRECTS - redirectDepth)",
    goal_cases)
  case 1
  show ?case by simp
next
  case 2
  then show ?case
    by (auto dest: live_fetch_Follow_depth [OF sym])
next
  case 3
  then show ?case by auto
qed

declare resolveMarkdown.simps [simp del]

section \<open>Words for the claims about the pipeline\<close>

text \<open>
  The result of the curated lookup for a path and the events of that lookup; the
  attempts among the events of a resolution; and the situation "the live fetch of
  \<open>path\<close> goes to the URL \<open>u\<close> on the host of the origin \<open>base\<close> and is answered by
  \<open>r\<close>".
\<close>

definition lookup :: "world \<Rightarrow> string \<Rightarrow> string option" where
  "lookup w path = fst (findPageMd w path [])"

definition page_reads :: "world \<Rightarrow> string \<Rightarrow> event list" where
  "page_reads w path = snd (findPageMd w path [])"

fun is_attempt :: "event \<Rightarrow> bool" where
  "is_attempt (Attempt path depth) = True"
| "is_attempt e = False"

definition live_response ::
  "world \<Rightarrow> resolve_options \<Rightarrow> string \<Rightarrow> url \<Rightarrow> url \<Rightarrow> response \<Rightarrow> bool" where
  "live_response w opts path u base r =
     (parse_url w path (Some (baseUrl_of w opts)) = Some u
      \<and> parse_url w (baseUrl_of w opts) None = Some base
      \<and> url_host u = url_host base
      \<and> fetch w (url_href u) (fetch_headers w) = Some r)"

text \<open>
  How a result was served, read off the last event: by the read of an artifact without
  redirect, whose body is returned under the public policy, or by the conversion of a
  fetched page under the private policy.
\<close>

definition served_by :: "world \<Rightarrow> event \<Rightarrow> resolved \<Rightarrow> bool" where
  "served_by w e res =
     (case e of
        ReadFile file \<Rightarrow>
          (case readFile w file of
             None \<Rightarrow> False
           | Some md \<Rightarrow>
               (redirect (parseFrontmatter md) = None \<or> redirect (parseFrontmatter md) = Some [])
               \<and> res = \<lparr>content = body (parseFrontmatter md), cacheControl = PUBLIC_CACHE\<rparr>)
      | Convert html \<Rightarrow>
          (case htmlToMarkdown w html of
             None \<Rightarrow> False
           | Some md \<Rightarrow> res = \<lparr>content = md, cacheControl = PRIVATE_CACHE\<rparr>)
      | _ \<Rightarrow> False)"

text \<open>
  A chain of three artifacts: \<open>a\<close> redirects to \<open>b\<close>, \<open>b\<close> to \<open>c\<close>, and \<open>c\<close> has no
  redirect and the body \<open>bodyC\<close>.
\<close>

definition chain3 ::
  "world \<Rightarrow> string \<Rightarrow> string \<Rightarrow> string \<Rightarrow> string \<Rightarrow> bool" where
  "chain3 w a b c bodyC =
     (case lookup w a of
        None \<Rightarrow> False
      | Some mdA \<Rightarrow>
          redirect (parseFrontmatter mdA) = Some b \<and> b \<noteq> [] \<and> isValidPath b \<and>
          (case lookup w b of
             None \<Rightarrow> False
           | Some mdB \<Rightarrow>
               redirect (parseFrontmatter mdB) = Some c \<and> c \<noteq> [] \<and> isValidPath c \<and>
               (case lookup w c of
                  None \<Rightarrow> False
                | Some mdC \<Rightarrow>
                    redirect (parseFrontmatter mdC) = None \<and> body (parseFrontmatter mdC) = bodyC)))"

text \<open>
  The two ways one call of \<open>resolveMarkdown\<close> can go, for the inductions over the hops:
  it returns, having recorded its attempt and events that are not attempts; or, below
  the hop bound, it continues as the call for another path at the next depth.
\<close>

definition step_done :: "world \<Rightarrow> resolve_options \<Rightarrow> string \<Rightarrow> nat \<Rightarrow> event list \<Rightarrow> bool" where
  "step_done w opts p d tr =
     (\<exists>res evs. resolveMarkdown w opts p d tr = (res, tr @ [Attempt p d] @ evs)
        \<and> filter is_attempt evs = []
        \<and> (\<forall>r. res = Some r \<longrightarrow> evs \<noteq> [] \<and> served_by w (last evs) r))"

definition step_follow :: "world \<Rightarrow> resolve_options \<Rightarrow> string \<Rightarrow> nat \<Rightarrow> event list \<Rightarrow> bool" where
  "step_follow w opts p d tr =
     (\<exists>t evs. d < MAX_REDIRECTS
        \<and> resolveMarkdown w opts p d tr =
            resolveMarkdown w opts t (d + 1) (tr @ [Attempt p d] @ evs)
        \<and> filter is_attempt evs = [])"

section \<open>An example world\<close>

text \<open>
  A small content tree under \<open>/srv/app\<close> with one route group, two redirect chains and
  a file outside the root; an origin \<open>http://localhost:3000\<close> with a few pages; a URL
  parser for the URLs of the examples (absolute \<open>http\<close> URLs, protocol-relative and
  root-relative references).
\<close>

definition example_files :: "(string \<times> string) list" where
  "example_files =
     [(''/srv/app/(main)/page.md'', ''# Home''),
      (''/srv/app/pricing/page.md'', ''# Pricing''),
      (''/srv/app/home/page.md'', ''---\<newline>redirect: /\<newline>---''),
      (''/srv/app/a/page.md'', ''---\<newline>redirect: /b\<newline>---\<newline>''),
      (''/srv/app/b/page.md'', ''---\<newline>redirect: /c\<newline>---\<newline>''),
      (''/srv/app/c/page.md'', ''# C''),
      (''/srv/app/h0/page.md'', ''---\<newline>redirect: /h1\<newline>---\<newline>''),
      (''/srv/app/h1/page.md'', ''---\<newline>redirect: /h2\<newline>---\<newline>''),
      (''/srv/app/h2/page.md'', ''---\<newline>redirect: /h3\<newline>---\<newline>''),
      (''/srv/app/h3/page.md'', ''---\<newline>redirect: /h4\<newline>---\<newline>''),
      (''/srv/app/h4/page.md'', ''# H4''),
      (''/etc/page.md'', ''secret'')]"

definition example_parse_absolute :: "string \<Rightarrow> url option" where
  "example_parse_absolute s =
     (if startsWith s ''http://'' then
        (let r = drop 7 s;
             h = takeWhile (\<lambda>c. c \<noteq> CHR ''/'') r;
             p = dropWhile (\<lambda>c. c \<noteq> CHR ''/'') r;
             p' = (if p = [] then ''/'' else p)
         in Some \<lparr>url_host = h, url_pathname = p', url_href = ''http://'' @ h @ p'\<rparr>)
      else None)"

definition example_parse_url :: "string \<Rightarrow> string option \<Rightarrow> url option" where
  "example_parse_url input base =
     (case example_parse_absolute input of
        Some u \<Rightarrow> Some u
      | None \<Rightarrow>
          (case base of
             None \<Rightarrow> None
           | Some b \<Rightarrow>
               (case example_parse_absolute b of
                  None \<Rightarrow> None
                | Some bu \<Rightarrow>
                    if startsWith input ''//'' then example_parse_absolute (''http:'' @ input)
                    else if startsWith input ''/'' then
                      Some \<lparr>url_host = url_host bu, url_pathname = input,
                            url_href = ''http://'' @ url_host bu @ input\<rparr>
                    else None)))"

definition example_responses :: "(string \<times> response) list" where
  "example_responses =
     [(''http://localhost:3000/about'',
         \<lparr>status = 200, location = None, content_length = None,
          text_body = Some ''<main>About</main>''\<rparr>),
      (''http://localhost:3000/old'',
         \<lparr>status = 302, location = Some ''http://evil.example/steal'', content_length = None,
          text_body = Some []\<rparr>),
      (''http://localhost:3000/moved'',
         \<lparr>status = 301, location = Some ''/pricing'', content_length = None,
          text_body = Some []\<rparr>),
      (''http://localhost:3000/big'',
         \<lparr>status = 200, location = None, content_length = Some ''5242881'',
          text_body = Some ''x''\<rparr>),
      (''http://localhost:3000/blank'',
         \<lparr>status = 200, location = None, content_length = None,
          text_body = Some '' ''\<rparr>),
      (''http://localhost:3000/gone'',
         \<lparr>status = 404, location = None, content_length = None,
          text_body = Some ''not found''\<rparr>)]"

definition example_world :: world where
  "example_world =
     \<lparr>cwd = ''/srv'',
      readFile = map_of example_files,
      readdir = (\<lambda>d. if d = ''/srv/app''
                      then Some [''(main)'', ''pricing'', ''home'', ''a'', ''b'', ''c'']
                      else None),
      nextUrl_protocol = ''http:'',
      nextUrl_host = ''localhost:3000'',
      cookie = Some ''session=abc'',
      parse_url = example_parse_url,
      fetch = (\<lambda>u hs. map_of example_responses u),
      htmlToMarkdown = (\<lambda>html. Some (''converted: '' @ html))\<rparr>"

definition example_options :: resolve_options where
  "example_options = \<lparr>enableAutoConversion = True, internalBaseUrl = None\<rparr>"

text \<open>The example world with an origin that answers every fetch with a body over the ceiling.\<close>

definition huge_world :: world where
  "huge_world =
     example_world\<lparr>fetch := (\<lambda>u hs.
        Some \<lparr>status = 200, location = None, content_length = None,
              text_body = Some (replicate 5242881 CHR ''a'')\<rparr>)\<rparr>"

section \<open>Facts about the string primitives\<close>

lemma startsWith_iff: "startsWith s p \<longleftrightarrow> (\<exists>r. s = p @ r)"
  by (induction s p rule: startsWith.induct) auto

lemma startsWith_append: "startsWith (p @ r) p"
  by (simp add: startsWith_iff)

lemma includes_iff: "includes_str s p \<longleftrightarrow> (\<exists>a b. s = a @ p @ b)"
proof (induction s)
  case Nil
  show ?case by auto
next
  case (Cons c cs)
  show ?case
  proof
    assume "includes_str (c # cs) p"
    then consider "startsWith (c # cs) p" | "includes_str cs p" by auto
    then show "\<exists>a b. c # cs = a @ p @ b"
    proof cases
      case 1
      then obtain r where "c # cs = p @ r" by (auto simp: startsWith_iff)
      then have "c # cs = [] @ p @ r" by simp
      then show ?thesis by blast
    next
      case 2
      then obtain a b where "cs = a @ p @ b" using Cons.IH by blast
      then have "c # cs = (c # a) @ p @ b" by simp
      then show ?thesis by blast
    qed
  next
    assume "\<exists>a b. c # cs = a @ p @ b"
    then obtain a b where ab: "c # cs = a @ p @ b" by blast
    show "includes_str (c # cs) p"
    proof (cases a)
      case Nil
      with ab have "startsWith (c # cs) p" by (simp add: startsWith_iff)
      then show ?thesis by simp
    next
      case (Cons x a')
      with ab have "cs = a' @ p @ b" by simp
      then have "includes_str cs p" using Cons.IH by blast
      then show ?thesis by simp
    qed
  qed
qed

lemma split_on_nonempty: "split_on sep s \<noteq> []"
  by (induction s) (auto split: list.splits)

section \<open>The path validator\<close>

text \<open>
  Claim C4. The path validator returns false for every path that is empty, that does
  not start with exactly one \<open>/\<close> (so a path starting with \<open>//\<close> is rejected), that
  contains the scheme separator \<open>://\<close>, or one of whose \<open>/\<close>-delimited segments is
  \<open>.\<close> or \<open>..\<close>; it returns true for every other path.
\<close>

theorem isValidPath_characterisation:
  "isValidPath path \<longleftrightarrow>
     \<not> (path = []
        \<or> \<not> (\<exists>r. path = CHR ''/'' # r \<and> (\<forall>r'. r \<noteq> CHR ''/'' # r'))
        \<or> (\<exists>a b. path = a @ ''://'' @ b)
        \<or> ''.'' \<in> set (split_on CHR ''/'' path)
        \<or> ''..'' \<in> set (split_on CHR ''/'' path))"
proof -
  have one: "startsWith path ''/'' \<and> \<not> startsWith path ''//''
      \<longleftrightarrow> (\<exists>r. path = CHR ''/'' # r \<and> (\<forall>r'. r \<noteq> CHR ''/'' # r'))"
    by (auto simp: startsWith_iff)
  have seg: "list_ex (\<lambda>s. s = ''..'' \<or> s = ''.'') (split_on CHR ''/'' path)
      \<longleftrightarrow> ''.'' \<in> set (split_on CHR ''/'' path) \<or> ''..'' \<in> set (split_on CHR ''/'' path)"
    by (auto simp: list_ex_iff)
  have ne: "startsWith path ''/'' \<Longrightarrow> path \<noteq> []"
    by auto
  show ?thesis
    unfolding isValidPath_def using one seg ne includes_iff [of path "''://''"]
    by (cases "startsWith path ''/'' \<and> \<not> startsWith path ''//''") auto
qed

theorem isValidPath_characterisation_witness:
  "isValidPath ''/docs/intro'' \<and> \<not> isValidPath ''//evil.com'' \<and> \<not> isValidPath ''/a/../b''
   \<and> \<not> (''/docs/intro'' = []
        \<or> \<not> (\<exists>r. ''/docs/intro'' = CHR ''/'' # r \<and> (\<forall>r'. r \<noteq> CHR ''/'' # r'))
        \<or> (\<exists>a b. ''/docs/intro'' = a @ ''://'' @ b)
        \<or> ''.'' \<in> set (split_on CHR ''/'' ''/docs/intro'')
        \<or> ''..'' \<in> set (split_on CHR ''/'' ''/docs/intro''))"
proof -
  have v: "isValidPath ''/docs/intro''" by (simp add: isValidPath_def)
  have n1: "\<not> isValidPath ''//evil.com''" by (simp add: isValidPath_def)
  have n2: "\<not> isValidPath ''/a/../b''" by (simp add: isValidPath_def)
  from v isValidPath_characterisation [of "''/docs/intro''"] n1 n2 show ?thesis by blast
qed

section \<open>Frontmatter\<close>

lemma startsWith_length: "startsWith s p \<Longrightarrow> length p \<le> length s"
  by (auto simp: startsWith_iff)

lemma startsWith_append_long:
  "length p \<le> length s \<Longrightarrow> startsWith (s @ t) p = startsWith s p"
  by (induction s p rule: startsWith.induct) auto

lemma first_occurrence_None: "first_occurrence s p = None \<longleftrightarrow> \<not> includes_str s p"
  by (induction s) auto

text \<open>
  The search finds the first occurrence: when \<open>p\<close> does not occur in \<open>a\<close> followed by
  all but the last code unit of \<open>p\<close>, the first occurrence in \<open>a @ p @ b\<close> is at
  \<open>length a\<close>.
\<close>

lemma first_occurrence_first:
  "p \<noteq> [] \<Longrightarrow> \<not> includes_str (a @ butlast p) p \<Longrightarrow>
   first_occurrence (a @ p @ b) p = Some (length a)"
proof (induction a)
  case Nil
  then show ?case by (cases p) (auto simp: startsWith_iff)
next
  case (Cons x a)
  have split: "(x # a) @ p @ b = ((x # a) @ butlast p) @ (last p # b)"
    using Cons.prems(1)
    by (simp add: append_butlast_last_id [symmetric] del: append_butlast_last_id)
  have len: "length p \<le> length ((x # a) @ butlast p)" by simp
  from Cons.prems(2) have ns: "\<not> startsWith ((x # a) @ butlast p) p"
    and ni: "\<not> includes_str (a @ butlast p) p"
    by auto
  from ns have "\<not> startsWith ((x # a) @ p @ b) p"
    unfolding split using startsWith_append_long [OF len] by simp
  moreover have "first_occurrence (a @ p @ b) p = Some (length a)"
    using Cons.IH [OF Cons.prems(1) ni] .
  ultimately show ?case by simp
qed

lemma indexOf_first:
  "p \<noteq> [] \<Longrightarrow> \<not> includes_str (a @ butlast p) p \<Longrightarrow>
   indexOf (h @ a @ p @ b) p (length h) = Some (length h + length a)"
  by (simp add: indexOf_def first_occurrence_first)

lemma indexOf_None:
  "from \<le> length s \<Longrightarrow> \<not> includes_str (drop from s) p \<Longrightarrow> indexOf s p from = None"
  by (simp add: indexOf_def first_occurrence_None min_def)

text \<open>
  Claim C10. For every artifact text that starts with \<open>---\<close> and has no further
  occurrence of \<open>---\<close> from position 3 on, \<open>parseFrontmatter\<close> returns no redirect and
  a body equal to the whole text, the leading \<open>---\<close> included: an unterminated block
  is plain body, not an error.
\<close>

theorem parseFrontmatter_unterminated:
  "startsWith txt ''---'' \<Longrightarrow> \<not> includes_str (drop 3 txt) ''---'' \<Longrightarrow>
   parseFrontmatter txt = \<lparr>redirect = None, body = txt\<rparr>"
proof -
  assume s: "startsWith txt ''---''" and n: "\<not> includes_str (drop 3 txt) ''---''"
  from s have "3 \<le> length txt" using startsWith_length by fastforce
  then have "indexOf txt ''---'' 3 = None" using n by (rule indexOf_None)
  then show ?thesis by (simp add: parseFrontmatter_def)
qed

theorem parseFrontmatter_unterminated_witness:
  "startsWith ''---\<newline>title: draft'' ''---''
   \<and> \<not> includes_str (drop 3 ''---\<newline>title: draft'') ''---''
   \<and> parseFrontmatter ''---\<newline>title: draft''
       = \<lparr>redirect = None, body = ''---\<newline>title: draft''\<rparr>"
proof -
  have a: "startsWith ''---\<newline>title: draft'' ''---''" by simp
  have b: "\<not> includes_str (drop 3 ''---\<newline>title: draft'') ''---''" by simp
  from a b parseFrontmatter_unterminated [OF a b] show ?thesis by blast
qed

subsection \<open>The block and its redirect\<close>

lemma dropWhile_ws_skip:
  "list_all is_ws w \<Longrightarrow> \<not> is_ws x \<Longrightarrow> dropWhile is_ws (w @ x # r) = x # r"
  by (induction w) auto

lemma rx_star_space_lit:
  "\<not> is_ws c \<Longrightarrow>
   rx_match (GreedyStar Space # Lit c # items) s = rx_match (Lit c # items) (dropWhile is_ws s)"
proof (induction s)
  case Nil
  show ?case by simp
next
  case (Cons x xs)
  show ?case
  proof (cases "is_ws x")
    case True
    with Cons.prems have "x \<noteq> c" by auto
    with True Cons.IH [OF Cons.prems] show ?thesis
      by (cases "rx_match (Lit c # items) (dropWhile is_ws xs)") auto
  next
    case False
    then show ?thesis by simp
  qed
qed

lemma rx_lits:
  "rx_match (map Lit lits @ items) s =
     (if startsWith s lits then rx_match items (drop (length lits) s) else None)"
proof (induction lits arbitrary: s)
  case Nil
  show ?case by simp
next
  case (Cons c cs)
  show ?case by (cases s) (auto simp: Cons.IH)
qed

lemma rx_star_space_end:
  "rx_match [GreedyStar Space, EndOfInput] s = (if list_all is_ws s then Some [] else None)"
  by (induction s) auto

lemma rx_lazy_take:
  "taken = [] \<or> rx_match items (x # xs) = None \<Longrightarrow> in_class k x \<Longrightarrow>
   rx_match (LazyPlusCapture k taken # items) (x # xs)
     = rx_match (LazyPlusCapture k (x # taken) # items) xs"
  by auto

lemma rx_lazy_stop:
  "taken \<noteq> [] \<Longrightarrow> rx_match items s = Some cap \<Longrightarrow>
   rx_match (LazyPlusCapture k taken # items) s = Some (rev taken)"
  by auto

lemma rx_lazy_capture:
  "v \<noteq> [] \<Longrightarrow> \<not> is_ws (last v) \<Longrightarrow> list_all (\<lambda>c. \<not> is_line_terminator c) v \<Longrightarrow>
   list_all is_ws w \<Longrightarrow>
   rx_match [LazyPlusCapture AnyChar taken, GreedyStar Space, EndOfInput] (v @ w)
     = Some (rev taken @ v)"
proof (induction v arbitrary: taken)
  case Nil
  then show ?case by simp
next
  case (Cons x v)
  have notall: "\<not> list_all is_ws ((x # v) @ w)"
  proof -
    have "last (x # v) \<in> set (x # v)" by (rule last_in_set) simp
    then have "last (x # v) \<in> set ((x # v) @ w)" unfolding set_append by (rule UnI1)
    with Cons.prems(2) show ?thesis unfolding list_all_iff by blast
  qed
  then have rest_fails: "rx_match [GreedyStar Space, EndOfInput] (x # v @ w) = None"
    by (simp only: rx_star_space_end append_Cons if_False)
  have x_ok: "in_class AnyChar x" using Cons.prems(3) by simp
  have step: "rx_match [LazyPlusCapture AnyChar taken, GreedyStar Space, EndOfInput] ((x # v) @ w)
      = rx_match [LazyPlusCapture AnyChar (x # taken), GreedyStar Space, EndOfInput] (v @ w)"
    unfolding append_Cons using rest_fails x_ok by (intro rx_lazy_take) simp_all
  show ?case
  proof (cases "v = []")
    case True
    have "rx_match [GreedyStar Space, EndOfInput] w = Some []"
      using Cons.prems(4) by (simp add: rx_star_space_end)
    then have "rx_match [LazyPlusCapture AnyChar (x # taken), GreedyStar Space, EndOfInput] w
            = Some (rev (x # taken))"
      by (intro rx_lazy_stop) simp_all
    with step True show ?thesis by simp
  next
    case False
    with Cons.prems have
      "rx_match [LazyPlusCapture AnyChar (x # taken), GreedyStar Space, EndOfInput] (v @ w)
         = Some (rev (x # taken) @ v)"
      by (intro Cons.IH) auto
    with step show ?thesis by simp
  qed
qed

lemma rx_value:
  "list_all is_ws w3 \<Longrightarrow> v \<noteq> [] \<Longrightarrow> \<not> is_ws (hd v) \<Longrightarrow> \<not> is_ws (last v) \<Longrightarrow>
   list_all (\<lambda>c. \<not> is_line_terminator c) v \<Longrightarrow> list_all is_ws w4 \<Longrightarrow>
   rx_match [GreedyStar Space, LazyPlusCapture AnyChar [], GreedyStar Space, EndOfInput]
     (w3 @ v @ w4) = Some v"
proof (induction w3)
  case Nil
  then obtain x v' where v: "v = x # v'" by (cases v) auto
  with Nil have nx: "\<not> is_ws x" by simp
  have "rx_match [LazyPlusCapture AnyChar [], GreedyStar Space, EndOfInput] (v @ w4) = Some v"
    using rx_lazy_capture [OF Nil.prems(2) Nil.prems(4) Nil.prems(5) Nil.prems(6), of "[]"] by simp
  with v nx show ?case by simp
next
  case (Cons x w3)
  then have "rx_match [GreedyStar Space, LazyPlusCapture AnyChar [], GreedyStar Space, EndOfInput]
     (w3 @ v @ w4) = Some v" by simp
  with Cons.prems(1) show ?case by simp
qed

lemma REDIRECT_RE_unfold:
  "REDIRECT_RE = GreedyStar Space # Lit CHR ''r'' # (map Lit ''edirect'' @
     (GreedyStar Space # Lit CHR '':'' #
       [GreedyStar Space, LazyPlusCapture AnyChar [], GreedyStar Space, EndOfInput]))"
  by (simp add: REDIRECT_RE_def)

lemma not_ws_r: "\<not> is_ws CHR ''r''" and not_ws_colon: "\<not> is_ws CHR '':''"
  by (simp_all add: is_ws_def)

lemma rx_lit:
  "rx_match (Lit c # items) t = (if startsWith t [c] then rx_match items (drop 1 t) else None)"
  by (cases t) auto

lemma match_redirect_steps:
  "match_redirect line =
     (if startsWith (dropWhile is_ws line) ''redirect''
      then (if startsWith (dropWhile is_ws (drop 8 (dropWhile is_ws line))) '':''
            then rx_match [GreedyStar Space, LazyPlusCapture AnyChar [], GreedyStar Space, EndOfInput]
                   (drop 1 (dropWhile is_ws (drop 8 (dropWhile is_ws line))))
            else None)
      else None)"
proof -
  let ?tail = "[GreedyStar Space, LazyPlusCapture AnyChar [], GreedyStar Space, EndOfInput]"
  have a: "match_redirect line =
      rx_match (map Lit ''redirect'' @ (GreedyStar Space # Lit CHR '':'' # ?tail))
        (dropWhile is_ws line)"
    unfolding match_redirect_def REDIRECT_RE_unfold
    by (subst rx_star_space_lit [OF not_ws_r]) simp
  have b: "rx_match (GreedyStar Space # Lit CHR '':'' # ?tail) s
      = (if startsWith (dropWhile is_ws s) '':''
         then rx_match ?tail (drop 1 (dropWhile is_ws s)) else None)" for s
    by (simp only: rx_star_space_lit [OF not_ws_colon] rx_lit)
  have c: "length ''redirect'' = 8" by simp
  show ?thesis
    by (simp only: a rx_lits b c)
qed

lemma match_redirect_no_key: "\<not> redirect_key line \<Longrightarrow> match_redirect line = None"
  by (auto simp: match_redirect_steps redirect_key_def)

lemma match_redirect_field:
  assumes "list_all is_ws w1" "list_all is_ws w2" "list_all is_ws w3" "list_all is_ws w4"
    and "v \<noteq> []" "\<not> is_ws (hd v)" "\<not> is_ws (last v)"
    and "list_all (\<lambda>c. \<not> is_line_terminator c) v"
  shows "match_redirect (w1 @ ''redirect'' @ w2 @ '':'' @ w3 @ v @ w4) = Some v"
proof -
  let ?l = "w1 @ ''redirect'' @ w2 @ '':'' @ w3 @ v @ w4"
  have d1: "dropWhile is_ws ?l = ''redirect'' @ w2 @ '':'' @ w3 @ v @ w4"
    using dropWhile_ws_skip [OF assms(1) not_ws_r] by simp
  have d2: "dropWhile is_ws (drop 8 (dropWhile is_ws ?l)) = '':'' @ w3 @ v @ w4"
    unfolding d1 using dropWhile_ws_skip [OF assms(2) not_ws_colon] by simp
  show ?thesis
    unfolding match_redirect_steps d2 unfolding d1
    using rx_value [OF assms(3) assms(5) assms(6) assms(7) assms(8) assms(4)]
    by (simp add: startsWith_iff)
qed

lemma redirect_loop_none:
  "\<forall>l \<in> set ls. match_redirect l = None \<Longrightarrow> redirect_loop ls = None"
  by (induction ls) auto

lemma redirect_loop_first:
  "\<forall>l \<in> set pre. match_redirect l = None \<Longrightarrow> match_redirect l = Some v \<Longrightarrow>
   redirect_loop (pre @ l # post) = Some v"
  by (induction pre) auto


lemma drop_length_append: "drop (length p) (p @ r) = r"
  by simp

lemma parseFrontmatter_delimited:
  assumes "\<not> includes_str (fm @ ''--'') ''---''"
  shows "parseFrontmatter (''---'' @ fm @ ''---'' @ rest) =
     \<lparr>redirect = redirect_loop (split_on CHR 0x0A fm), body = strip_leading_newline rest\<rparr>"
proof -
  define t where "t = ''---'' @ fm @ ''---'' @ rest"
  have idx: "indexOf t ''---'' 3 = Some (3 + length fm)"
    unfolding t_def using indexOf_first [of "''---''" fm "''---''" rest] assms
    by (simp add: eval_nat_numeral)
  have sl: "slice t 3 (3 + length fm) = fm"
    unfolding t_def by (simp add: slice_def eval_nat_numeral)
  have "drop (length (''---'' @ fm @ ''---'')) ((''---'' @ fm @ ''---'') @ rest) = rest"
    by (rule drop_length_append)
  moreover have "length (''---'' @ fm @ ''---'') = 3 + length fm + 3"
    by simp
  ultimately have "slice_from t (3 + length fm + 3) = rest"
    unfolding slice_from_def t_def by (simp only: append_assoc)
  then have sf: "slice_from t (6 + length fm) = rest"
    by (simp add: add.commute)
  have st: "startsWith t ''---''"
    unfolding t_def by (rule startsWith_append)
  have "parseFrontmatter t =
     \<lparr>redirect = redirect_loop (split_on CHR 0x0A fm), body = strip_leading_newline rest\<rparr>"
    unfolding parseFrontmatter_def by (simp add: idx sl sf st)
  then show ?thesis unfolding t_def .
qed

text \<open>
  Where the parser does what its description says. For a text \<open>---\<close>, \<open>fm\<close>,
  \<open>---\<close>, \<open>rest\<close> in which \<open>---\<close> does not occur inside \<open>fm\<close> (so that the search
  finds the closing delimiter), the body is \<open>rest\<close> with one leading line break
  removed; the redirect is the value \<open>v\<close> (white space around it removed) of the first
  line of \<open>fm\<close> of the form \<open>redirect: v\<close>, when no line before it starts with the
  key \<open>redirect\<close> and a colon, and there is no redirect when no line starts so. A
  text that does not start with \<open>---\<close> has no redirect and is its own body.
\<close>

theorem parseFrontmatter_block:
  "(txt = ''---'' @ fm @ ''---'' @ rest \<and> \<not> includes_str (fm @ ''--'') ''---'' \<longrightarrow>
      body (parseFrontmatter txt) = strip_leading_newline rest
      \<and> (\<forall>pre line post w1 w2 w3 w4 v.
            split_on CHR 0x0A fm = pre @ line # post
            \<and> (\<forall>l \<in> set pre. \<not> redirect_key l)
            \<and> line = w1 @ ''redirect'' @ w2 @ '':'' @ w3 @ v @ w4
            \<and> list_all is_ws w1 \<and> list_all is_ws w2 \<and> list_all is_ws w3 \<and> list_all is_ws w4
            \<and> v \<noteq> [] \<and> \<not> is_ws (hd v) \<and> \<not> is_ws (last v)
            \<and> list_all (\<lambda>c. \<not> is_line_terminator c) v
            \<longrightarrow> redirect (parseFrontmatter txt) = Some v)
      \<and> ((\<forall>l \<in> set (split_on CHR 0x0A fm). \<not> redirect_key l)
            \<longrightarrow> redirect (parseFrontmatter txt) = None))
   \<and> (\<not> startsWith txt ''---'' \<longrightarrow> parseFrontmatter txt = \<lparr>redirect = None, body = txt\<rparr>)"
proof (intro conjI impI)
  assume h: "txt = ''---'' @ fm @ ''---'' @ rest \<and> \<not> includes_str (fm @ ''--'') ''---''"
  then have pf: "parseFrontmatter txt =
     \<lparr>redirect = redirect_loop (split_on CHR 0x0A fm), body = strip_leading_newline rest\<rparr>"
    using parseFrontmatter_delimited [of fm rest] by simp
  show "body (parseFrontmatter txt) = strip_leading_newline rest"
    by (simp add: pf)
  show "\<forall>pre line post w1 w2 w3 w4 v.
            split_on CHR 0x0A fm = pre @ line # post
            \<and> (\<forall>l \<in> set pre. \<not> redirect_key l)
            \<and> line = w1 @ ''redirect'' @ w2 @ '':'' @ w3 @ v @ w4
            \<and> list_all is_ws w1 \<and> list_all is_ws w2 \<and> list_all is_ws w3 \<and> list_all is_ws w4
            \<and> v \<noteq> [] \<and> \<not> is_ws (hd v) \<and> \<not> is_ws (last v)
            \<and> list_all (\<lambda>c. \<not> is_line_terminator c) v
            \<longrightarrow> redirect (parseFrontmatter txt) = Some v"
  proof (intro allI impI, elim conjE)
    fix pre line post w1 w2 w3 w4 v
    assume sp: "split_on CHR 0x0A fm = pre @ line # post"
      and pre: "\<forall>l \<in> set pre. \<not> redirect_key l"
      and line: "line = w1 @ ''redirect'' @ w2 @ '':'' @ w3 @ v @ w4"
      and ws: "list_all is_ws w1" "list_all is_ws w2" "list_all is_ws w3" "list_all is_ws w4"
      and v: "v \<noteq> []" "\<not> is_ws (hd v)" "\<not> is_ws (last v)"
             "list_all (\<lambda>c. \<not> is_line_terminator c) v"
    have m: "match_redirect line = Some v"
      unfolding line by (rule match_redirect_field [OF ws v])
    have "\<forall>l \<in> set pre. match_redirect l = None"
      using pre match_redirect_no_key by blast
    then have "redirect_loop (pre @ line # post) = Some v"
      using m by (rule redirect_loop_first)
    then show "redirect (parseFrontmatter txt) = Some v"
      by (simp add: pf sp)
  qed
  show "redirect (parseFrontmatter txt) = None"
    if "\<forall>l \<in> set (split_on CHR 0x0A fm). \<not> redirect_key l"
  proof -
    from that have "\<forall>l \<in> set (split_on CHR 0x0A fm). match_redirect l = None"
      using match_redirect_no_key by blast
    then have "redirect_loop (split_on CHR 0x0A fm) = None"
      by (rule redirect_loop_none)
    then show ?thesis by (simp add: pf)
  qed
next
  assume "\<not> startsWith txt ''---''"
  then show "parseFrontmatter txt = \<lparr>redirect = None, body = txt\<rparr>"
    by (simp add: parseFrontmatter_def)
qed

theorem parseFrontmatter_block_witness:
  "parseFrontmatter ''---\<newline>title: Home\<newline>redirect: /pricing \<newline>---\<newline>Body''
     = \<lparr>redirect = Some ''/pricing'', body = ''Body''\<rparr>
   \<and> redirect (parseFrontmatter ''---\<newline>title: Home\<newline>---\<newline>Body'') = None
   \<and> parseFrontmatter ''# Pricing'' = \<lparr>redirect = None, body = ''# Pricing''\<rparr>"
proof -
  let ?fm = "''\<newline>title: Home\<newline>redirect: /pricing \<newline>''"
  let ?txt = "''---\<newline>title: Home\<newline>redirect: /pricing \<newline>---\<newline>Body''"
  have t: "?txt = ''---'' @ ?fm @ ''---'' @ ''\<newline>Body'' \<and> \<not> includes_str (?fm @ ''--'') ''---''"
    by simp
  note T = parseFrontmatter_block [of ?txt ?fm "''\<newline>Body''"]
  from T t have b: "body (parseFrontmatter ?txt) = strip_leading_newline ''\<newline>Body''"
    by blast
  have hyp: "split_on CHR 0x0A ?fm = [[], ''title: Home''] @ ''redirect: /pricing '' # [[]]
      \<and> (\<forall>l \<in> set [[], ''title: Home'']. \<not> redirect_key l)
      \<and> ''redirect: /pricing '' = [] @ ''redirect'' @ [] @ '':'' @ '' '' @ ''/pricing'' @ '' ''
      \<and> list_all is_ws [] \<and> list_all is_ws [] \<and> list_all is_ws '' '' \<and> list_all is_ws '' ''
      \<and> ''/pricing'' \<noteq> [] \<and> \<not> is_ws (hd ''/pricing'') \<and> \<not> is_ws (last ''/pricing'')
      \<and> list_all (\<lambda>c. \<not> is_line_terminator c) ''/pricing''"
    by (simp add: redirect_key_def is_ws_def is_line_terminator_def)
  from T t have "\<forall>pre line post w1 w2 w3 w4 v.
            split_on CHR 0x0A ?fm = pre @ line # post
            \<and> (\<forall>l \<in> set pre. \<not> redirect_key l)
            \<and> line = w1 @ ''redirect'' @ w2 @ '':'' @ w3 @ v @ w4
            \<and> list_all is_ws w1 \<and> list_all is_ws w2 \<and> list_all is_ws w3 \<and> list_all is_ws w4
            \<and> v \<noteq> [] \<and> \<not> is_ws (hd v) \<and> \<not> is_ws (last v)
            \<and> list_all (\<lambda>c. \<not> is_line_terminator c) v
            \<longrightarrow> redirect (parseFrontmatter ?txt) = Some v"
    by blast
  with hyp have r: "redirect (parseFrontmatter ?txt) = Some ''/pricing''"
    by blast
  let ?fm2 = "''\<newline>title: Home\<newline>''"
  let ?txt2 = "''---\<newline>title: Home\<newline>---\<newline>Body''"
  have t2: "?txt2 = ''---'' @ ?fm2 @ ''---'' @ ''\<newline>Body'' \<and> \<not> includes_str (?fm2 @ ''--'') ''---''"
    by simp
  have nk: "\<forall>l \<in> set (split_on CHR 0x0A ?fm2). \<not> redirect_key l"
    by (simp add: redirect_key_def is_ws_def)
  from parseFrontmatter_block [of ?txt2 ?fm2 "''\<newline>Body''"] t2 nk
  have r2: "redirect (parseFrontmatter ?txt2) = None"
    by blast
  have "\<not> startsWith ''# Pricing'' ''---''" by simp
  with parseFrontmatter_block [of "''# Pricing''" "[]" "[]"]
  have p3: "parseFrontmatter ''# Pricing'' = \<lparr>redirect = None, body = ''# Pricing''\<rparr>"
    by blast
  have "parseFrontmatter ?txt = \<lparr>redirect = Some ''/pricing'', body = ''Body''\<rparr>"
    using b r by (cases "parseFrontmatter ?txt") (simp add: strip_leading_newline_def)
  with r2 p3 show ?thesis by blast
qed

text \<open>
  The regular expression takes a value of white space only by backtracking: the value
  found is then one code unit of white space, not trimmed.
\<close>

lemma match_redirect_blank_value:
  "match_redirect ''redirect:  '' = Some '' ''"
  by code_simp

text \<open>
  Claim C8: for an artifact whose block is delimited by a \<open>---\<close> line at the very
  start and a later \<open>---\<close> line, the parser extracts the first redirect field of the
  block and returns as body what follows the closing delimiter. The code misses this
  where \<open>---\<close> occurs inside a line of the block: it searches for the substring
  \<open>---\<close>, not for a line. Here the block is closed inside the line \<open>title: a---b\<close>;
  the redirect \<open>/x\<close> of the next line is not found, and the body returned is the rest
  of the block with the closing line, not \<open>Body\<close>. The function's own description
  is "the body without the frontmatter block".
\<close>

theorem parseFrontmatter_delimiter_inside_line:
  "parseFrontmatter ''---\<newline>title: a---b\<newline>redirect: /x\<newline>---\<newline>Body''
     = \<lparr>redirect = None, body = ''b\<newline>redirect: /x\<newline>---\<newline>Body''\<rparr>
   \<and> redirect (parseFrontmatter ''---\<newline>title: a---b\<newline>redirect: /x\<newline>---\<newline>Body'')
       \<noteq> Some ''/x''
   \<and> body (parseFrontmatter ''---\<newline>title: a---b\<newline>redirect: /x\<newline>---\<newline>Body'')
       \<noteq> ''Body''"
  by code_simp

section \<open>Signal detection\<close>

subsection \<open>Evaluating the number parser\<close>

lemma bit_length_0: "bit_length 0 = 0"
  by (simp add: bit_length.simps)

lemma bit_length_pos: "0 < n \<Longrightarrow> bit_length n = Suc (bit_length (n div 2))"
  by (subst bit_length.simps) simp

lemmas eval_round = round_to_double_def floor_log2_def ratio_ge_pow2_def round_half_even_def
  pow2_def bit_length_0 bit_length_pos Let_def

lemmas eval_parseFloat = parseFloat_def is_ws_def is_digit_def decimal_def digit_val_def
  exponent_part_def eval_round

text \<open>
  The parser rounds as the source does: \<open>0.8\<close> and \<open>0.1\<close> give the nearest doubles,
  \<open>9007199254740993\<close> (\<open>2^53 + 1\<close>, a tie) goes to the even neighbour, \<open>1e-324\<close> is below
  half the least positive double and gives 0, and \<open>1e309\<close> is beyond the largest double
  and gives infinity.
\<close>

lemma parseFloat_examples:
  "parseFloat ''0'' = Num 0"
  "parseFloat ''5'' = Num 5"
  "parseFloat ''0.8'' = Num (3602879701896397 / 4503599627370496)"
  "parseFloat ''0.1'' = Num (3602879701896397 / 36028797018963968)"
  "parseFloat ''9007199254740993'' = Num 9007199254740992"
  "parseFloat ''1e-324'' = Num 0"
  "parseFloat ''1e309'' = PosInf"
  "parseFloat ''-1e309'' = NegInf"
  "parseFloat ''abc'' = NaN"
  by (simp_all add: eval_parseFloat)

text \<open>
  At the ends of the range: \<open>5e-324\<close> gives the least positive double \<open>2^-1074\<close>, the
  largest double \<open>(2^53 - 1) * 2^971\<close> is read back from its shortest decimal text, and a
  text just above the middle between it and \<open>2^1024\<close> gives infinity.
\<close>

lemma parseFloat_extremes:
  "parseFloat ''5e-324'' = Num (1 / 2 ^ 1074)"
  "parseFloat ''1.7976931348623157e308'' = Num ((2 ^ 53 - 1) * 2 ^ 971)"
  "parseFloat ''1.7976931348623159e308'' = PosInf"
  by (simp_all add: eval_parseFloat)

lemmas eval_accept = parseAcceptMarkdown_def entry_quality_def declared_quality_def trim_def
  toLowerCase_def lower_char_def slice_from_def is_ws_def parseFloat_examples

subsection \<open>Priority and quality\<close>

lemma endsWith_iff: "endsWith s p \<longleftrightarrow> (\<exists>r. s = r @ p)"
proof -
  have "endsWith s p \<longleftrightarrow> (\<exists>r. rev s = rev p @ r)"
    by (simp add: endsWith_def startsWith_iff)
  also have "\<dots> \<longleftrightarrow> (\<exists>r. s = r @ p)"
  proof
    assume "\<exists>r. rev s = rev p @ r"
    then obtain r where "rev s = rev p @ r" by blast
    then have "rev (rev s) = rev (rev p @ r)" by simp
    then have "s = rev r @ p" by simp
    then show "\<exists>r. s = r @ p" by blast
  next
    assume "\<exists>r. s = r @ p"
    then obtain r where "s = r @ p" by blast
    then have "rev s = rev p @ rev r" by simp
    then show "\<exists>r. rev s = rev p @ r" by blast
  qed
  finally show ?thesis .
qed

lemma entry_quality_spec:
  "entry_quality part = (if names_markdown part then Some (declared_quality part) else None)"
proof (cases "split_on CHR '';'' part")
  case Nil
  then show ?thesis using split_on_nonempty by blast
next
  case (Cons m ps)
  show ?thesis
  proof (cases "find (\<lambda>p. startsWith p ''q='') (map trim ps)")
    case None
    with Cons show ?thesis
      by (simp add: entry_quality_def names_markdown_def declared_quality_def)
  next
    case (Some qp)
    then have "startsWith qp ''q=''" by (auto simp: find_Some_iff)
    then have "qp \<noteq> []" by auto
    with Cons Some show ?thesis
      by (simp add: entry_quality_def names_markdown_def declared_quality_def slice_from_def
          split: jsnum.splits)
  qed
qed

lemma accept_loop_first:
  "\<forall>e \<in> set pre. \<not> names_markdown e \<Longrightarrow> names_markdown entry \<Longrightarrow>
   accept_loop (pre @ entry # post) = declared_quality entry"
  by (induction pre) (simp_all add: entry_quality_spec)

text \<open>
  Claim C1. The priority of the signals is fixed. With suffix detection enabled, every
  path that ends in \<open>.md\<close> gives the suffix signal (with the path before the suffix,
  \<open>/\<close> when that is empty), whatever the accept header, the user agent and the other
  options are. The accept header is looked at only otherwise, and when its check
  succeeds (a quality above 0) it gives the accept-header signal whatever the user
  agent is.
\<close>

theorem detect_priority:
  "(enableMdSuffix options \<and> pathname = stem @ ''.md'' \<longrightarrow>
      detectLlmSignal pathname accept userAgent options
        = Some (MdSuffix (if stem = [] then ''/'' else stem)))
   \<and> (\<not> (enableMdSuffix options \<and> endsWith pathname ''.md'')
       \<and> accept = Some a \<and> a \<noteq> [] \<and> js_gt_zero (parseAcceptMarkdown a) \<longrightarrow>
      detectLlmSignal pathname accept userAgent options
        = Some (AcceptHeader (parseAcceptMarkdown a)))"
proof (intro conjI impI)
  assume h: "enableMdSuffix options \<and> pathname = stem @ ''.md''"
  then have e: "endsWith pathname ''.md''" by (auto simp: endsWith_iff)
  from h have t: "take (length pathname - 3) pathname = stem" by simp
  show "detectLlmSignal pathname accept userAgent options
        = Some (MdSuffix (if stem = [] then ''/'' else stem))"
    unfolding detectLlmSignal_def using h e by (simp only: t) simp
next
  assume "\<not> (enableMdSuffix options \<and> endsWith pathname ''.md'')
       \<and> accept = Some a \<and> a \<noteq> [] \<and> js_gt_zero (parseAcceptMarkdown a)"
  then show "detectLlmSignal pathname accept userAgent options
        = Some (AcceptHeader (parseAcceptMarkdown a))"
    by (auto simp: detectLlmSignal_def Let_def)
qed

theorem detect_priority_witness:
  "detectLlmSignal ''/pricing.md'' (Some ''text/markdown'') (Some ''ClaudeBot/1.0'') default_options
     = Some (MdSuffix ''/pricing'')
   \<and> detectLlmSignal ''/pricing'' (Some ''text/markdown'') (Some ''ClaudeBot/1.0'') default_options
     = Some (AcceptHeader (Num 1))"
proof -
  have h1: "enableMdSuffix default_options \<and> ''/pricing.md'' = ''/pricing'' @ ''.md''"
    by (simp add: default_options_def)
  have q: "parseAcceptMarkdown ''text/markdown'' = Num 1" by code_simp
  have h2: "\<not> (enableMdSuffix default_options \<and> endsWith ''/pricing'' ''.md'')
       \<and> Some ''text/markdown'' = Some ''text/markdown'' \<and> ''text/markdown'' \<noteq> []
       \<and> js_gt_zero (parseAcceptMarkdown ''text/markdown'')"
    unfolding q by (simp add: endsWith_def)
  have a: "detectLlmSignal ''/pricing.md'' (Some ''text/markdown'') (Some ''ClaudeBot/1.0'')
      default_options = Some (MdSuffix (if ''/pricing'' = [] then ''/'' else ''/pricing''))"
    by (rule detect_priority [of default_options "''/pricing.md''" "''/pricing''",
          THEN conjunct1, THEN mp, OF h1])
  have b: "detectLlmSignal ''/pricing'' (Some ''text/markdown'') (Some ''ClaudeBot/1.0'')
      default_options = Some (AcceptHeader (parseAcceptMarkdown ''text/markdown''))"
    by (rule detect_priority [of default_options "''/pricing''" _ "Some ''text/markdown''",
          THEN conjunct2, THEN mp, OF h2])
  have c: "(if ''/pricing'' = [] then ''/'' else ''/pricing'') = ''/pricing''" by simp
  show ?thesis using a b unfolding q c by (rule conjI)
qed

text \<open>
  Claim C7, as the code has it. Let the path not be a suffix path and let \<open>entry\<close> be
  the first entry of the accept header whose media type is \<open>text/markdown\<close>. Its
  declared quality is the number that \<open>parseFloat\<close> reads from its first \<open>q=\<close>
  parameter (the double nearest to the decimal text), and 1 when it has no such parameter
  or when the value does not parse. When the declared quality is above 0, detection
  returns the accept-header signal with that quality; when it is not (as for \<open>q=0\<close>,
  or for \<open>q=1e-324\<close>, which rounds to 0), the header gives no signal and detection goes
  on as if there were no accept header.
\<close>

theorem accept_quality:
  "\<not> (enableMdSuffix options \<and> endsWith pathname ''.md'') \<and> a \<noteq> []
   \<and> map trim (split_on CHR '','' a) = pre @ entry # post
   \<and> (\<forall>e \<in> set pre. \<not> names_markdown e) \<and> names_markdown entry \<longrightarrow>
     (js_gt_zero (declared_quality entry) \<longrightarrow>
        detectLlmSignal pathname (Some a) userAgent options
          = Some (AcceptHeader (declared_quality entry)))
     \<and> (\<not> js_gt_zero (declared_quality entry) \<longrightarrow>
        detectLlmSignal pathname (Some a) userAgent options
          = detectLlmSignal pathname None userAgent options)"
proof (intro impI, elim conjE)
  assume ns: "\<not> (enableMdSuffix options \<and> endsWith pathname ''.md'')" and ne: "a \<noteq> []"
    and sp: "map trim (split_on CHR '','' a) = pre @ entry # post"
    and pre: "\<forall>e \<in> set pre. \<not> names_markdown e" and nm: "names_markdown entry"
  have q: "parseAcceptMarkdown a = declared_quality entry"
    unfolding parseAcceptMarkdown_def sp using pre nm by (rule accept_loop_first)
  show "(js_gt_zero (declared_quality entry) \<longrightarrow>
        detectLlmSignal pathname (Some a) userAgent options
          = Some (AcceptHeader (declared_quality entry)))
     \<and> (\<not> js_gt_zero (declared_quality entry) \<longrightarrow>
        detectLlmSignal pathname (Some a) userAgent options
          = detectLlmSignal pathname None userAgent options)"
    using ns ne by (auto simp: detectLlmSignal_def Let_def q)
qed

text \<open>
  Claim C7 as stated fails twice: with \<open>q=0\<close> the header names the type and no
  accept-header signal is returned, and with \<open>q=5\<close> the quality returned is 5, outside
  the interval from 0 to 1.
\<close>

theorem accept_quality_counterexample:
  "detectLlmSignal ''/pricing'' (Some ''text/markdown;q=0'') None default_options = None
   \<and> detectLlmSignal ''/pricing'' (Some ''text/markdown;q=5'') None default_options
       = Some (AcceptHeader (Num 5))"
proof -
  have q0: "parseAcceptMarkdown ''text/markdown;q=0'' = Num 0"
    by (simp add: eval_accept)
  have q5: "parseAcceptMarkdown ''text/markdown;q=5'' = Num 5"
    by (simp add: eval_accept)
  have a: "detectLlmSignal ''/pricing'' (Some ''text/markdown;q=0'') None default_options = None"
    by (simp add: detectLlmSignal_def default_options_def endsWith_def q0)
  have b: "detectLlmSignal ''/pricing'' (Some ''text/markdown;q=5'') None default_options
       = Some (AcceptHeader (Num 5))"
    by (simp add: detectLlmSignal_def default_options_def endsWith_def q5)
  show ?thesis by (rule conjI [OF a b])
qed

theorem accept_quality_witness:
  "detectLlmSignal ''/pricing'' (Some ''text/html, text/markdown;q=0.8'') None default_options
     = Some (AcceptHeader (Num (3602879701896397 / 4503599627370496)))
   \<and> detectLlmSignal ''/pricing'' (Some ''text/markdown;q=0'') (Some ''ClaudeBot/1.0'') default_options
     = detectLlmSignal ''/pricing'' None (Some ''ClaudeBot/1.0'') default_options
   \<and> detectLlmSignal ''/pricing'' (Some ''text/markdown;q=1e-324'') (Some ''ClaudeBot/1.0'')
       default_options
     = detectLlmSignal ''/pricing'' None (Some ''ClaudeBot/1.0'') default_options"
proof -
  have dq: "declared_quality ''text/markdown;q=0.8'' = Num (3602879701896397 / 4503599627370496)"
    by (simp add: eval_accept)
  have h: "\<not> (enableMdSuffix default_options \<and> endsWith ''/pricing'' ''.md'')
      \<and> ''text/html, text/markdown;q=0.8'' \<noteq> []
      \<and> map trim (split_on CHR '','' ''text/html, text/markdown;q=0.8'')
          = [''text/html''] @ ''text/markdown;q=0.8'' # []
      \<and> (\<forall>e \<in> set [''text/html'']. \<not> names_markdown e)
      \<and> names_markdown ''text/markdown;q=0.8''"
    by code_simp
  have g: "js_gt_zero (declared_quality ''text/markdown;q=0.8'')"
    unfolding dq by simp
  have a: "detectLlmSignal ''/pricing'' (Some ''text/html, text/markdown;q=0.8'') None
      default_options = Some (AcceptHeader (declared_quality ''text/markdown;q=0.8''))"
    by (rule accept_quality [THEN mp, OF h, THEN conjunct1, THEN mp, OF g])
  have dq0: "declared_quality ''text/markdown;q=0'' = Num 0"
    by (simp add: eval_accept)
  have h0: "\<not> (enableMdSuffix default_options \<and> endsWith ''/pricing'' ''.md'')
      \<and> ''text/markdown;q=0'' \<noteq> []
      \<and> map trim (split_on CHR '','' ''text/markdown;q=0'') = [] @ ''text/markdown;q=0'' # []
      \<and> (\<forall>e \<in> set []. \<not> names_markdown e)
      \<and> names_markdown ''text/markdown;q=0''"
    by code_simp
  have g0: "\<not> js_gt_zero (declared_quality ''text/markdown;q=0'')"
    unfolding dq0 by simp
  have b: "detectLlmSignal ''/pricing'' (Some ''text/markdown;q=0'') (Some ''ClaudeBot/1.0'')
      default_options = detectLlmSignal ''/pricing'' None (Some ''ClaudeBot/1.0'') default_options"
    by (rule accept_quality [THEN mp, OF h0, THEN conjunct2, THEN mp, OF g0])
  have dqt: "declared_quality ''text/markdown;q=1e-324'' = Num 0"
    by (simp add: eval_accept)
  have ht: "\<not> (enableMdSuffix default_options \<and> endsWith ''/pricing'' ''.md'')
      \<and> ''text/markdown;q=1e-324'' \<noteq> []
      \<and> map trim (split_on CHR '','' ''text/markdown;q=1e-324'')
          = [] @ ''text/markdown;q=1e-324'' # []
      \<and> (\<forall>e \<in> set []. \<not> names_markdown e)
      \<and> names_markdown ''text/markdown;q=1e-324''"
    by code_simp
  have gt: "\<not> js_gt_zero (declared_quality ''text/markdown;q=1e-324'')"
    unfolding dqt by simp
  have c: "detectLlmSignal ''/pricing'' (Some ''text/markdown;q=1e-324'') (Some ''ClaudeBot/1.0'')
      default_options = detectLlmSignal ''/pricing'' None (Some ''ClaudeBot/1.0'') default_options"
    by (rule accept_quality [THEN mp, OF ht, THEN conjunct2, THEN mp, OF gt])
  show ?thesis using a b c unfolding dq by (intro conjI)
qed

section \<open>The artifact store\<close>

lemma group_loop_reads:
  "ReadFile p \<in> set (snd (group_loop w appDir segments grps tr)) \<Longrightarrow>
   ReadFile p \<in> set tr \<or>
   (isPathWithinDirectory p appDir \<and>
    (\<exists>g \<in> set grps. p = path_resolve appDir ([g] @ segments @ [''page.md''])))"
proof (induction grps arbitrary: tr)
  case Nil
  then show ?case by simp
next
  case (Cons g grps)
  let ?gp = "path_resolve appDir ([g] @ segments @ [''page.md''])"
  show ?case
  proof (cases "isPathWithinDirectory ?gp appDir")
    case False
    with Cons.prems have "ReadFile p \<in> set (snd (group_loop w appDir segments grps tr))"
      by (simp add: Let_def)
    from Cons.IH [OF this] show ?thesis by auto
  next
    case True
    show ?thesis
    proof (cases "readFile w ?gp")
      case (Some c)
      with True Cons.prems show ?thesis
        by (auto simp: Let_def tryReadFile_def)
    next
      case None
      with True Cons.prems have
        "ReadFile p \<in> set (snd (group_loop w appDir segments grps (tr @ [ReadFile ?gp])))"
        by (simp add: Let_def tryReadFile_def)
      from Cons.IH [OF this] True show ?thesis by auto
    qed
  qed
qed

lemma findPageMd_reads:
  assumes "ReadFile p \<in> set (snd (findPageMd w requestPath tr))"
  shows "ReadFile p \<in> set tr \<or>
     (isPathWithinDirectory p (appDir_of w) \<and>
      (p = direct_candidate w requestPath \<or>
       (\<exists>g. startsWith g ''('' \<and> endsWith g '')'' \<and> p = group_candidate w g requestPath)))"
proof (cases "isPathWithinDirectory (direct_candidate w requestPath) (appDir_of w)")
  case False
  with assms show ?thesis by (simp add: findPageMd_def Let_def direct_candidate_def)
next
  case True
  let ?d = "direct_candidate w requestPath"
  show ?thesis
  proof (cases "readFile w ?d")
    case (Some c)
    with True assms show ?thesis
      by (auto simp: findPageMd_def Let_def direct_candidate_def tryReadFile_def)
  next
    case None
    show ?thesis
    proof (cases "readdir w (appDir_of w)")
      case rn: None
      with None True assms show ?thesis
        by (auto simp: findPageMd_def Let_def direct_candidate_def tryReadFile_def)
    next
      case (Some topDirs)
      let ?gs = "filter (\<lambda>d. startsWith d ''('' \<and> endsWith d '')'') topDirs"
      from None Some True assms have
        "ReadFile p \<in> set (snd (group_loop w (appDir_of w) (segments_of requestPath) ?gs
            (tr @ [ReadFile ?d] @ [ReadDir (appDir_of w)])))"
        by (simp add: findPageMd_def Let_def direct_candidate_def tryReadFile_def)
      from group_loop_reads [OF this] True show ?thesis
        by (auto simp: group_candidate_def)
    qed
  qed
qed

text \<open>
  Claim C5. The containment check holds of a path exactly when the path is the root or
  the root followed by a separator and more. Every file that \<open>findPageMd\<close> reads is
  a candidate (the direct path, or the path under a route group) and lies within the
  content root: the containment check stands before each read. When the direct
  candidate escapes the root, the lookup returns not-found without reading anything; a
  route-group candidate that escapes is never read.
\<close>

theorem containment_before_read:
  "(isPathWithinDirectory p dir \<longleftrightarrow> p = dir \<or> (\<exists>rest. p = dir @ ''/'' @ rest))
   \<and> (ReadFile p \<in> set (snd (findPageMd w requestPath [])) \<longrightarrow>
      isPathWithinDirectory p (appDir_of w)
      \<and> (p = direct_candidate w requestPath
          \<or> (\<exists>g. startsWith g ''('' \<and> endsWith g '')'' \<and> p = group_candidate w g requestPath)))
   \<and> (\<not> isPathWithinDirectory (direct_candidate w requestPath) (appDir_of w) \<longrightarrow>
        findPageMd w requestPath tr = (None, tr))
   \<and> (\<not> isPathWithinDirectory (group_candidate w g requestPath) (appDir_of w) \<longrightarrow>
        ReadFile (group_candidate w g requestPath) \<notin> set (snd (findPageMd w requestPath [])))"
proof -
  have a: "ReadFile p \<in> set (snd (findPageMd w requestPath [])) \<longrightarrow>
      isPathWithinDirectory p (appDir_of w)
      \<and> (p = direct_candidate w requestPath
          \<or> (\<exists>g. startsWith g ''('' \<and> endsWith g '')'' \<and> p = group_candidate w g requestPath))"
  proof
    assume "ReadFile p \<in> set (snd (findPageMd w requestPath []))"
    from findPageMd_reads [OF this]
    show "isPathWithinDirectory p (appDir_of w)
      \<and> (p = direct_candidate w requestPath
          \<or> (\<exists>g. startsWith g ''('' \<and> endsWith g '')'' \<and> p = group_candidate w g requestPath))"
      by simp
  qed
  have b: "\<not> isPathWithinDirectory (direct_candidate w requestPath) (appDir_of w) \<longrightarrow>
        findPageMd w requestPath tr = (None, tr)"
    by (simp add: findPageMd_def Let_def direct_candidate_def)
  have c: "\<not> isPathWithinDirectory (group_candidate w g requestPath) (appDir_of w) \<longrightarrow>
        ReadFile (group_candidate w g requestPath) \<notin> set (snd (findPageMd w requestPath []))"
  proof (intro impI notI)
    assume n: "\<not> isPathWithinDirectory (group_candidate w g requestPath) (appDir_of w)"
      and "ReadFile (group_candidate w g requestPath) \<in> set (snd (findPageMd w requestPath []))"
    from findPageMd_reads [OF this(2)] n show False by simp
  qed
  have w: "isPathWithinDirectory p dir \<longleftrightarrow> p = dir \<or> (\<exists>rest. p = dir @ ''/'' @ rest)"
    by (auto simp: isPathWithinDirectory_def startsWith_iff)
  show ?thesis by (rule conjI [OF w conjI [OF a conjI [OF b c]]])
qed

theorem containment_before_read_witness:
  "findPageMd example_world ''/../../etc'' [] = (None, [])
   \<and> isPathWithinDirectory ''/srv/app/(main)/page.md'' (appDir_of example_world)
   \<and> ReadFile (group_candidate example_world ''(main)'' ''/../../etc'')
         \<notin> set (snd (findPageMd example_world ''/../../etc'' []))"
proof -
  have n: "\<not> isPathWithinDirectory (direct_candidate example_world ''/../../etc'')
      (appDir_of example_world)"
    by code_simp
  have b: "findPageMd example_world ''/../../etc'' [] = (None, [])"
    by (rule containment_before_read [THEN conjunct2, THEN conjunct2, THEN conjunct1, THEN mp,
          OF n])
  have m: "ReadFile ''/srv/app/(main)/page.md'' \<in> set (snd (findPageMd example_world ''/'' []))"
    by code_simp
  have a: "isPathWithinDirectory ''/srv/app/(main)/page.md'' (appDir_of example_world)"
    by (rule containment_before_read [THEN conjunct2, THEN conjunct1, THEN mp, OF m,
          THEN conjunct1])
  have ng: "\<not> isPathWithinDirectory (group_candidate example_world ''(main)'' ''/../../etc'')
      (appDir_of example_world)"
    by code_simp
  have c: "ReadFile (group_candidate example_world ''(main)'' ''/../../etc'')
         \<notin> set (snd (findPageMd example_world ''/../../etc'' []))"
    by (rule containment_before_read [THEN conjunct2, THEN conjunct2, THEN conjunct2, THEN mp,
          OF ng])
  show ?thesis by (rule conjI [OF b conjI [OF a c]])
qed

section \<open>The resolution pipeline\<close>

subsection \<open>The events of a lookup\<close>

lemma group_loop_trace:
  "group_loop w a segs gs tr =
     (fst (group_loop w a segs gs []), tr @ snd (group_loop w a segs gs []))"
proof (induction gs arbitrary: tr)
  case Nil
  show ?case by simp
next
  case (Cons g gs)
  let ?gp = "path_resolve a ([g] @ segs @ [''page.md''])"
  show ?case
  proof (cases "isPathWithinDirectory ?gp a")
    case False
    then show ?thesis using Cons.IH [of tr] by (simp add: Let_def)
  next
    case True
    show ?thesis
    proof (cases "readFile w ?gp")
      case (Some c)
      with True show ?thesis by (simp add: Let_def tryReadFile_def)
    next
      case None
      with True show ?thesis
        using Cons.IH [of "tr @ [ReadFile ?gp]"] Cons.IH [of "[ReadFile ?gp]"]
        by (simp add: Let_def tryReadFile_def)
    qed
  qed
qed

lemma findPageMd_trace: "findPageMd w p tr = (lookup w p, tr @ page_reads w p)"
proof -
  have g: "\<And>gs t. group_loop w (appDir_of w) (segments_of p) gs t =
     (fst (group_loop w (appDir_of w) (segments_of p) gs []),
      t @ snd (group_loop w (appDir_of w) (segments_of p) gs []))"
    by (rule group_loop_trace)
  show ?thesis
    unfolding lookup_def page_reads_def findPageMd_def Let_def tryReadFile_def
    by (auto split: option.splits simp: g [of _ "tr @ _"] g [of _ "[_, _]"])
qed

lemma group_loop_no_attempt:
  "filter is_attempt (snd (group_loop w a segs gs tr)) = filter is_attempt tr"
  by (induction gs arbitrary: tr) (auto simp: Let_def tryReadFile_def split: option.splits)

lemma page_reads_no_attempt: "filter is_attempt (page_reads w p) = []"
  unfolding page_reads_def findPageMd_def Let_def tryReadFile_def
  by (auto split: option.splits simp: group_loop_no_attempt)

lemma group_loop_Some_last:
  "fst (group_loop w a segs gs tr) = Some md \<Longrightarrow>
   snd (group_loop w a segs gs tr) \<noteq> [] \<and>
   (\<exists>f. last (snd (group_loop w a segs gs tr)) = ReadFile f \<and> readFile w f = Some md)"
  by (induction gs arbitrary: tr) (auto simp: Let_def tryReadFile_def split: option.splits if_splits)

lemma lookup_Some_last:
  "lookup w p = Some md \<Longrightarrow>
   page_reads w p \<noteq> [] \<and> (\<exists>f. last (page_reads w p) = ReadFile f \<and> readFile w f = Some md)"
  unfolding lookup_def page_reads_def findPageMd_def Let_def tryReadFile_def
  by (auto split: option.splits if_splits dest: group_loop_Some_last)


subsection \<open>One call of the pipeline\<close>

lemma resolve_found_final:
  "lookup w p = Some md \<Longrightarrow>
   redirect (parseFrontmatter md) = None \<or> redirect (parseFrontmatter md) = Some [] \<Longrightarrow>
   resolveMarkdown w opts p d tr =
     (Some \<lparr>content = body (parseFrontmatter md), cacheControl = PUBLIC_CACHE\<rparr>,
      tr @ [Attempt p d] @ page_reads w p)"
  by (subst resolveMarkdown.simps) (auto simp: findPageMd_trace)

lemma resolve_found_follow:
  "lookup w p = Some md \<Longrightarrow> redirect (parseFrontmatter md) = Some t \<Longrightarrow> t \<noteq> [] \<Longrightarrow>
   isValidPath t \<Longrightarrow> d < MAX_REDIRECTS \<Longrightarrow>
   resolveMarkdown w opts p d tr =
     resolveMarkdown w opts t (d + 1) (tr @ [Attempt p d] @ page_reads w p)"
  by (subst resolveMarkdown.simps) (auto simp: findPageMd_trace)

lemma resolve_found_stop:
  "lookup w p = Some md \<Longrightarrow> redirect (parseFrontmatter md) = Some t \<Longrightarrow> t \<noteq> [] \<Longrightarrow>
   \<not> isValidPath t \<or> MAX_REDIRECTS \<le> d \<Longrightarrow>
   resolveMarkdown w opts p d tr = (None, tr @ [Attempt p d] @ page_reads w p)"
  by (subst resolveMarkdown.simps) (auto simp: findPageMd_trace)

lemma resolve_miss_disabled:
  "lookup w p = None \<Longrightarrow> \<not> enableAutoConversion opts \<Longrightarrow>
   resolveMarkdown w opts p d tr = (None, tr @ [Attempt p d] @ page_reads w p)"
  by (subst resolveMarkdown.simps) (auto simp: findPageMd_trace)

lemma resolve_miss_finished:
  "lookup w p = None \<Longrightarrow> enableAutoConversion opts \<Longrightarrow>
   live_fetch w opts p d (tr @ [Attempt p d] @ page_reads w p) = (Finished res, tr') \<Longrightarrow>
   resolveMarkdown w opts p d tr = (res, tr')"
  by (subst resolveMarkdown.simps) (auto simp: findPageMd_trace)

lemma resolve_miss_follow:
  "lookup w p = None \<Longrightarrow> enableAutoConversion opts \<Longrightarrow>
   live_fetch w opts p d (tr @ [Attempt p d] @ page_reads w p) = (Follow t, tr') \<Longrightarrow>
   resolveMarkdown w opts p d tr = resolveMarkdown w opts t (d + 1) tr'"
  by (subst resolveMarkdown.simps) (auto simp: findPageMd_trace)

subsection \<open>The live fetch\<close>

lemma live_fetch_host_mismatch:
  "parse_url w p (Some (baseUrl_of w opts)) = Some u \<Longrightarrow>
   parse_url w (baseUrl_of w opts) None = Some base \<Longrightarrow> url_host u \<noteq> url_host base \<Longrightarrow>
   live_fetch w opts p d tr = (Finished None, tr)"
  by (simp add: live_fetch_def Let_def)

lemma live_fetch_redirect_foreign:
  "live_response w opts p u base r \<Longrightarrow> 300 \<le> status r \<Longrightarrow> status r < 400 \<Longrightarrow>
   location r = Some loc \<Longrightarrow> parse_url w loc (Some (url_href u)) = Some target \<Longrightarrow>
   url_host target \<noteq> url_host base \<Longrightarrow>
   live_fetch w opts p d tr = (Finished None, tr @ [Fetch u (fetch_headers w)])"
  by (simp add: live_fetch_def live_response_def Let_def response_ok_def)

lemma live_fetch_redirect_same_host:
  "live_response w opts p u base r \<Longrightarrow> 300 \<le> status r \<Longrightarrow> status r < 400 \<Longrightarrow>
   d < MAX_REDIRECTS \<Longrightarrow> location r = Some loc \<Longrightarrow> loc \<noteq> [] \<Longrightarrow>
   parse_url w loc (Some (url_href u)) = Some target \<Longrightarrow> url_host target = url_host base \<Longrightarrow>
   live_fetch w opts p d tr = (Follow (url_pathname target), tr @ [Fetch u (fetch_headers w)])"
  by (simp add: live_fetch_def live_response_def Let_def)

lemma live_fetch_redirect_at_bound:
  "live_response w opts p u base r \<Longrightarrow> 300 \<le> status r \<Longrightarrow> status r < 400 \<Longrightarrow>
   MAX_REDIRECTS \<le> d \<Longrightarrow>
   live_fetch w opts p d tr = (Finished None, tr @ [Fetch u (fetch_headers w)])"
  by (simp add: live_fetch_def live_response_def Let_def response_ok_def)

lemma live_fetch_not_ok:
  "live_response w opts p u base r \<Longrightarrow> \<not> response_ok r \<Longrightarrow>
   \<not> (300 \<le> status r \<and> status r < 400) \<Longrightarrow>
   live_fetch w opts p d tr = (Finished None, tr @ [Fetch u (fetch_headers w)])"
  by (auto simp: live_fetch_def live_response_def Let_def)

lemma ok_not_redirect: "response_ok r \<Longrightarrow> \<not> (300 \<le> status r \<and> status r < 400)"
  by (simp add: response_ok_def)

lemma live_fetch_declared_too_large:
  "live_response w opts p u base r \<Longrightarrow> response_ok r \<Longrightarrow> declared_too_large r \<Longrightarrow>
   live_fetch w opts p d tr = (Finished None, tr @ [Fetch u (fetch_headers w)])"
  using ok_not_redirect [of r] by (auto simp: live_fetch_def live_response_def Let_def)

lemma live_fetch_body_rejected:
  "live_response w opts p u base r \<Longrightarrow> response_ok r \<Longrightarrow> \<not> declared_too_large r \<Longrightarrow>
   text_body r = Some html \<Longrightarrow> trim html = [] \<or> MAX_HTML_SIZE < length html \<Longrightarrow>
   live_fetch w opts p d tr = (Finished None, tr @ [Fetch u (fetch_headers w), ReadBody])"
  using ok_not_redirect [of r] by (auto simp: live_fetch_def live_response_def Let_def)

lemma live_fetch_converted:
  "live_response w opts p u base r \<Longrightarrow> response_ok r \<Longrightarrow> \<not> declared_too_large r \<Longrightarrow>
   text_body r = Some html \<Longrightarrow> trim html \<noteq> [] \<Longrightarrow> length html \<le> MAX_HTML_SIZE \<Longrightarrow>
   htmlToMarkdown w html = Some md \<Longrightarrow>
   live_fetch w opts p d tr =
     (Finished (Some \<lparr>content = md, cacheControl = PRIVATE_CACHE\<rparr>),
      tr @ [Fetch u (fetch_headers w), ReadBody, Convert html])"
  using ok_not_redirect [of r] by (auto simp: live_fetch_def live_response_def Let_def)

lemma live_fetch_events:
  "\<exists>evs. snd (live_fetch w opts p d tr) = tr @ evs \<and> filter is_attempt evs = []"
  by (auto simp: live_fetch_def Let_def split: option.splits)

lemma live_fetch_success:
  "live_fetch w opts p d tr = (Finished (Some res), tr') \<Longrightarrow>
   \<exists>html md. tr' \<noteq> [] \<and> last tr' = Convert html \<and> htmlToMarkdown w html = Some md
     \<and> res = \<lparr>content = md, cacheControl = PRIVATE_CACHE\<rparr>"
  by (auto simp: live_fetch_def Let_def split: option.splits if_splits)

subsection \<open>The size ceiling\<close>

lemma group_loop_fetch_update:
  "group_loop (w\<lparr>fetch := f\<rparr>) a segs gs tr = group_loop w a segs gs tr"
  by (induction gs arbitrary: tr) (auto simp: Let_def tryReadFile_def split: option.splits)

lemma findPageMd_fetch_update: "findPageMd (w\<lparr>fetch := f\<rparr>) p tr = findPageMd w p tr"
  by (auto simp: findPageMd_def Let_def tryReadFile_def appDir_of_def group_loop_fetch_update
      split: option.splits)

text \<open>
  Claim C6. The ceiling is 5 MiB. When the curated lookup misses and the live fetch is
  answered with a successful status: a declared content length over the ceiling gives
  none and the body is not read (the events end with the fetch); a body longer than the
  ceiling gives none after the body is read; a body of white space only gives none.
  In each case no \<open>Convert\<close> event occurs: nothing reaches the converter.
\<close>

theorem size_ceiling:
  "MAX_HTML_SIZE = 5242880
   \<and> (lookup w path = None \<and> enableAutoConversion opts
       \<and> live_response w opts path u base r \<and> response_ok r \<longrightarrow>
        (content_length r = Some cl \<and> cl \<noteq> [] \<and> parseInt10 cl = Some n
           \<and> int MAX_HTML_SIZE < n \<longrightarrow>
           resolveMarkdown w opts path d tr =
             (None, tr @ [Attempt path d] @ page_reads w path @ [Fetch u (fetch_headers w)]))
      \<and> (\<not> declared_too_large r \<and> text_body r = Some html \<and> MAX_HTML_SIZE < length html \<longrightarrow>
           resolveMarkdown w opts path d tr =
             (None, tr @ [Attempt path d] @ page_reads w path
                      @ [Fetch u (fetch_headers w), ReadBody]))
      \<and> (\<not> declared_too_large r \<and> text_body r = Some html \<and> trim html = [] \<longrightarrow>
           resolveMarkdown w opts path d tr =
             (None, tr @ [Attempt path d] @ page_reads w path
                      @ [Fetch u (fetch_headers w), ReadBody])))"
proof -
  let ?tr1 = "tr @ [Attempt path d] @ page_reads w path"
  have size: "MAX_HTML_SIZE = 5242880" by (simp add: MAX_HTML_SIZE_def)
  have declared: "resolveMarkdown w opts path d tr = (None, ?tr1 @ [Fetch u (fetch_headers w)])"
    if miss: "lookup w path = None" and auto: "enableAutoConversion opts"
      and live: "live_response w opts path u base r" and ok: "response_ok r"
      and cl: "content_length r = Some cl" "cl \<noteq> []" "parseInt10 cl = Some n"
        "int MAX_HTML_SIZE < n"
  proof -
    from cl have "declared_too_large r" by (simp add: declared_too_large_def)
    then have "live_fetch w opts path d ?tr1 = (Finished None, ?tr1 @ [Fetch u (fetch_headers w)])"
      by (rule live_fetch_declared_too_large [OF live ok])
    then show ?thesis by (rule resolve_miss_finished [OF miss auto])
  qed
  have actual: "resolveMarkdown w opts path d tr =
      (None, ?tr1 @ [Fetch u (fetch_headers w), ReadBody])"
    if miss: "lookup w path = None" and auto: "enableAutoConversion opts"
      and live: "live_response w opts path u base r" and ok: "response_ok r"
      and body: "\<not> declared_too_large r" "text_body r = Some html"
        "trim html = [] \<or> MAX_HTML_SIZE < length html"
  proof -
    have "live_fetch w opts path d ?tr1 =
        (Finished None, ?tr1 @ [Fetch u (fetch_headers w), ReadBody])"
      by (rule live_fetch_body_rejected [OF live ok body])
    then show ?thesis by (rule resolve_miss_finished [OF miss auto])
  qed
  show ?thesis
    using size declared actual by (simp del: append_assoc)
qed


theorem size_ceiling_witness:
  "fst (resolveMarkdown example_world example_options ''/big'' 0 []) = None
   \<and> fst (resolveMarkdown example_world example_options ''/blank'' 0 []) = None
   \<and> fst (resolveMarkdown huge_world example_options ''/huge'' 0 []) = None"
proof -
  let ?base = "\<lparr>url_host = ''localhost:3000'', url_pathname = ''/'',
      url_href = ''http://localhost:3000/''\<rparr>"
  \<comment> \<open>a declared length over the ceiling\<close>
  let ?u1 = "\<lparr>url_host = ''localhost:3000'', url_pathname = ''/big'',
      url_href = ''http://localhost:3000/big''\<rparr>"
  let ?r1 = "\<lparr>status = 200, location = None, content_length = Some ''5242881'',
      text_body = Some ''x''\<rparr>"
  have h1: "lookup example_world ''/big'' = None \<and> enableAutoConversion example_options
      \<and> live_response example_world example_options ''/big'' ?u1 ?base ?r1 \<and> response_ok ?r1"
    by code_simp
  have c1: "content_length ?r1 = Some ''5242881'' \<and> ''5242881'' \<noteq> []
      \<and> parseInt10 ''5242881'' = Some 5242881 \<and> int MAX_HTML_SIZE < 5242881"
    by (simp add: parseInt10_def is_ws_def is_digit_def decimal_def digit_val_def
        MAX_HTML_SIZE_def)
  have a: "fst (resolveMarkdown example_world example_options ''/big'' 0 []) = None"
    using size_ceiling [THEN conjunct2, THEN mp, OF h1, THEN conjunct1, THEN mp, OF c1,
        of 0 "[]"]
    by (simp only: fst_conv)
  \<comment> \<open>a body of white space\<close>
  let ?u2 = "\<lparr>url_host = ''localhost:3000'', url_pathname = ''/blank'',
      url_href = ''http://localhost:3000/blank''\<rparr>"
  let ?r2 = "\<lparr>status = 200, location = None, content_length = None,
      text_body = Some '' ''\<rparr>"
  have h2: "lookup example_world ''/blank'' = None \<and> enableAutoConversion example_options
      \<and> live_response example_world example_options ''/blank'' ?u2 ?base ?r2 \<and> response_ok ?r2"
    by code_simp
  have c2: "\<not> declared_too_large ?r2 \<and> text_body ?r2 = Some '' '' \<and> trim '' '' = []"
    by code_simp
  have b: "fst (resolveMarkdown example_world example_options ''/blank'' 0 []) = None"
    using size_ceiling [THEN conjunct2, THEN mp, OF h2, THEN conjunct2, THEN conjunct2,
        THEN mp, OF c2, of 0 "[]"]
    by (simp only: fst_conv)
  \<comment> \<open>a body longer than the ceiling, with no declared length\<close>
  let ?u3 = "\<lparr>url_host = ''localhost:3000'', url_pathname = ''/huge'',
      url_href = ''http://localhost:3000/huge''\<rparr>"
  let ?r3 = "\<lparr>status = 200, location = None, content_length = None,
      text_body = Some (replicate 5242881 CHR ''a'')\<rparr>"
  have "fst (findPageMd example_world ''/huge'' []) = None"
    by code_simp
  then have l3: "lookup huge_world ''/huge'' = None"
    by (simp only: lookup_def huge_world_def findPageMd_fetch_update)
  have e3: "enableAutoConversion example_options"
    by (simp add: example_options_def)
  have v3: "live_response huge_world example_options ''/huge'' ?u3 ?base ?r3"
    by (simp add: live_response_def huge_world_def example_world_def example_options_def
        baseUrl_of_def example_parse_url_def example_parse_absolute_def Let_def)
  have o3: "response_ok ?r3"
    by (simp add: response_ok_def)
  have c3: "\<not> declared_too_large ?r3 \<and> text_body ?r3 = Some (replicate 5242881 CHR ''a'')
      \<and> MAX_HTML_SIZE < length (replicate 5242881 CHR ''a'')"
    by (simp add: declared_too_large_def MAX_HTML_SIZE_def)
  have c: "fst (resolveMarkdown huge_world example_options ''/huge'' 0 []) = None"
    using size_ceiling [THEN conjunct2, THEN mp, OF conjI [OF l3 conjI [OF e3 conjI [OF v3 o3]]],
        THEN conjunct2, THEN conjunct1, THEN mp, OF c3, of 0 "[]"]
    by (simp only: fst_conv)
  show ?thesis by (rule conjI [OF a conjI [OF b c]])
qed

subsection \<open>Induction on the hops that remain\<close>

lemma resolve_step: "step_done w opts p d tr \<or> step_follow w opts p d tr"
proof (cases "lookup w p")
  case (Some md)
  note na = page_reads_no_attempt [of w p]
  show ?thesis
  proof (cases "redirect (parseFrontmatter md) = None \<or> redirect (parseFrontmatter md) = Some []")
    case True
    from lookup_Some_last [OF Some] obtain f where
      ne: "page_reads w p \<noteq> []" and l: "last (page_reads w p) = ReadFile f"
      and rf: "readFile w f = Some md" by blast
    have "served_by w (last (page_reads w p))
        \<lparr>content = body (parseFrontmatter md), cacheControl = PUBLIC_CACHE\<rparr>"
      using True by (simp add: served_by_def l rf)
    with resolve_found_final [OF Some True, of opts d tr] ne na have "step_done w opts p d tr"
      unfolding step_done_def by blast
    then show ?thesis ..
  next
    case False
    then obtain t where t: "redirect (parseFrontmatter md) = Some t" "t \<noteq> []"
      by (cases "redirect (parseFrontmatter md)") auto
    show ?thesis
    proof (cases "isValidPath t \<and> d < MAX_REDIRECTS")
      case True
      with resolve_found_follow [OF Some t, of d opts tr] na have "step_follow w opts p d tr"
        unfolding step_follow_def by blast
      then show ?thesis ..
    next
      case False
      then have "\<not> isValidPath t \<or> MAX_REDIRECTS \<le> d" by auto
      from resolve_found_stop [OF Some t this, of opts tr] na have "step_done w opts p d tr"
        unfolding step_done_def by blast
      then show ?thesis ..
    qed
  qed
next
  case None
  note na = page_reads_no_attempt [of w p]
  show ?thesis
  proof (cases "enableAutoConversion opts")
    case False
    from resolve_miss_disabled [OF None False, of d tr] na have "step_done w opts p d tr"
      unfolding step_done_def by blast
    then show ?thesis ..
  next
    case True
    let ?tr1 = "tr @ [Attempt p d] @ page_reads w p"
    obtain x tr2 where lf: "live_fetch w opts p d ?tr1 = (x, tr2)"
      by (cases "live_fetch w opts p d ?tr1") auto
    from live_fetch_events [of w opts p d ?tr1] lf obtain evs where
      evs: "tr2 = ?tr1 @ evs" "filter is_attempt evs = []" by auto
    have tr2: "tr2 = tr @ [Attempt p d] @ (page_reads w p @ evs)"
      using evs(1) by simp
    have na2: "filter is_attempt (page_reads w p @ evs) = []"
      using na evs(2) by simp
    show ?thesis
    proof (cases x)
      case (Follow t)
      from lf Follow have d: "d < MAX_REDIRECTS"
        using live_fetch_Follow_depth by blast
      from lf Follow have "resolveMarkdown w opts p d tr = resolveMarkdown w opts t (d + 1) tr2"
        using resolve_miss_follow [OF None True] by blast
      with d tr2 na2 have "step_follow w opts p d tr"
        unfolding step_follow_def by blast
      then show ?thesis ..
    next
      case (Finished res)
      with lf have r: "resolveMarkdown w opts p d tr = (res, tr2)"
        using resolve_miss_finished [OF None True] by blast
      have "page_reads w p @ evs \<noteq> [] \<and> served_by w (last (page_reads w p @ evs)) r"
        if "res = Some r" for r
      proof -
        from lf Finished that live_fetch_success [of w opts p d ?tr1 r tr2]
        obtain html md where c: "last tr2 = Convert html" "htmlToMarkdown w html = Some md"
          "r = \<lparr>content = md, cacheControl = PRIVATE_CACHE\<rparr>" by blast
        have ne: "page_reads w p @ evs \<noteq> []"
        proof
          assume "page_reads w p @ evs = []"
          with tr2 have "last tr2 = Attempt p d" by simp
          with c(1) show False by simp
        qed
        then have "last ((tr @ [Attempt p d]) @ (page_reads w p @ evs))
            = last (page_reads w p @ evs)"
          by (rule last_appendR)
        then have "last tr2 = last (page_reads w p @ evs)"
          unfolding tr2 by (simp only: append_assoc)
        with c ne show ?thesis by (simp add: served_by_def)
      qed
      with r tr2 na2 have "step_done w opts p d tr"
        unfolding step_done_def by blast
      then show ?thesis ..
    qed
  qed
qed


lemma resolve_success_served:
  "resolveMarkdown w opts p d tr = (Some r, tr') \<Longrightarrow> tr' \<noteq> [] \<and> served_by w (last tr') r"
proof (induction "MAX_REDIRECTS - d" arbitrary: p d tr)
  case 0
  then have "\<not> step_follow w opts p d tr" by (simp add: step_follow_def)
  with resolve_step [of w opts p d tr] have "step_done w opts p d tr" by simp
  then obtain res evs where
    e: "resolveMarkdown w opts p d tr = (res, tr @ [Attempt p d] @ evs)"
      "\<forall>r. res = Some r \<longrightarrow> evs \<noteq> [] \<and> served_by w (last evs) r"
    unfolding step_done_def by blast
  with "0.prems" have "evs \<noteq> []" "served_by w (last evs) r" "tr' = (tr @ [Attempt p d]) @ evs"
    by auto
  then show ?case by (simp only: last_appendR) simp
next
  case (Suc k)
  from resolve_step [of w opts p d tr] show ?case
  proof
    assume "step_done w opts p d tr"
    then obtain res evs where
      e: "resolveMarkdown w opts p d tr = (res, tr @ [Attempt p d] @ evs)"
        "\<forall>r. res = Some r \<longrightarrow> evs \<noteq> [] \<and> served_by w (last evs) r"
      unfolding step_done_def by blast
    with Suc.prems have "evs \<noteq> []" "served_by w (last evs) r" "tr' = (tr @ [Attempt p d]) @ evs"
      by auto
    then show ?case by (simp only: last_appendR) simp
  next
    assume "step_follow w opts p d tr"
    then obtain t evs where f: "d < MAX_REDIRECTS"
      "resolveMarkdown w opts p d tr = resolveMarkdown w opts t (d + 1) (tr @ [Attempt p d] @ evs)"
      unfolding step_follow_def by blast
    from Suc.hyps(2) f(1) have k: "k = MAX_REDIRECTS - (d + 1)" by simp
    from Suc.prems f(2) have
      "resolveMarkdown w opts t (d + 1) (tr @ [Attempt p d] @ evs) = (Some r, tr')" by simp
    then show ?case by (rule Suc.hyps(1) [OF k])
  qed
qed

lemma resolve_attempt_bound:
  "length (filter is_attempt (snd (resolveMarkdown w opts p d tr)))
     \<le> length (filter is_attempt tr) + Suc (MAX_REDIRECTS - d)"
proof (induction "MAX_REDIRECTS - d" arbitrary: p d tr)
  case 0
  then have "\<not> step_follow w opts p d tr" by (simp add: step_follow_def)
  with resolve_step [of w opts p d tr] have "step_done w opts p d tr" by simp
  then obtain res evs where
    "resolveMarkdown w opts p d tr = (res, tr @ [Attempt p d] @ evs)" "filter is_attempt evs = []"
    unfolding step_done_def by blast
  then show ?case by simp
next
  case (Suc k)
  from resolve_step [of w opts p d tr] show ?case
  proof
    assume "step_done w opts p d tr"
    then obtain res evs where
      "resolveMarkdown w opts p d tr = (res, tr @ [Attempt p d] @ evs)" "filter is_attempt evs = []"
      unfolding step_done_def by blast
    then show ?case by simp
  next
    assume "step_follow w opts p d tr"
    then obtain t evs where f: "d < MAX_REDIRECTS"
      "resolveMarkdown w opts p d tr = resolveMarkdown w opts t (d + 1) (tr @ [Attempt p d] @ evs)"
      "filter is_attempt evs = []"
      unfolding step_follow_def by blast
    from Suc.hyps(2) f(1) have k: "k = MAX_REDIRECTS - (d + 1)" by simp
    have "length (filter is_attempt (snd (resolveMarkdown w opts t (d + 1) (tr @ [Attempt p d] @ evs))))
        \<le> length (filter is_attempt (tr @ [Attempt p d] @ evs)) + Suc (MAX_REDIRECTS - (d + 1))"
      by (rule Suc.hyps(1) [OF k])
    with f show ?case by simp
  qed
qed

text \<open>
  Claim C9. Every resolution that succeeds ends either with the read of a curated
  artifact that has no redirect, whose body it returns with the public policy
  \<open>public, max-age=300, s-maxage=3600\<close>, or with the conversion of a fetched page,
  whose result it returns with the private policy \<open>private, max-age=300\<close>.
\<close>

theorem cache_policy:
  "resolveMarkdown w opts path d tr = (Some r, tr') \<longrightarrow>
     tr' \<noteq> [] \<and> served_by w (last tr') r
     \<and> ((\<exists>file. last tr' = ReadFile file)
           \<and> cacheControl r = ''public, max-age=300, s-maxage=3600''
         \<or> (\<exists>html. last tr' = Convert html)
           \<and> cacheControl r = ''private, max-age=300'')"
proof
  assume res: "resolveMarkdown w opts path d tr = (Some r, tr')"
  from resolve_success_served [OF res] have s: "tr' \<noteq> []" "served_by w (last tr') r"
    by simp_all
  from s(2) have "(\<exists>file. last tr' = ReadFile file)
           \<and> cacheControl r = ''public, max-age=300, s-maxage=3600''
         \<or> (\<exists>html. last tr' = Convert html)
           \<and> cacheControl r = ''private, max-age=300''"
    by (cases "last tr'")
      (auto simp: served_by_def PUBLIC_CACHE_def PRIVATE_CACHE_def split: option.splits)
  with s show "tr' \<noteq> [] \<and> served_by w (last tr') r
     \<and> ((\<exists>file. last tr' = ReadFile file)
           \<and> cacheControl r = ''public, max-age=300, s-maxage=3600''
         \<or> (\<exists>html. last tr' = Convert html)
           \<and> cacheControl r = ''private, max-age=300'')"
    by simp
qed

theorem cache_policy_witness:
  "resolveMarkdown example_world example_options ''/pricing'' 0 []
     = (Some \<lparr>content = ''# Pricing'', cacheControl = ''public, max-age=300, s-maxage=3600''\<rparr>,
        [Attempt ''/pricing'' 0, ReadFile ''/srv/app/pricing/page.md''])
   \<and> fst (resolveMarkdown example_world example_options ''/about'' 0 [])
     = Some \<lparr>content = ''converted: <main>About</main>'',
             cacheControl = ''private, max-age=300''\<rparr>
   \<and> served_by example_world (ReadFile ''/srv/app/pricing/page.md'')
        \<lparr>content = ''# Pricing'', cacheControl = ''public, max-age=300, s-maxage=3600''\<rparr>
   \<and> served_by example_world (Convert ''<main>About</main>'')
        \<lparr>content = ''converted: <main>About</main>'', cacheControl = ''private, max-age=300''\<rparr>"
proof -
  let ?r1 = "\<lparr>content = ''# Pricing'', cacheControl = ''public, max-age=300, s-maxage=3600''\<rparr>"
  let ?t1 = "[Attempt ''/pricing'' 0, ReadFile ''/srv/app/pricing/page.md'']"
  have e1: "resolveMarkdown example_world example_options ''/pricing'' 0 [] = (Some ?r1, ?t1)"
    by code_simp
  from cache_policy [THEN mp, OF e1]
  have "served_by example_world (last ?t1) ?r1"
    by (elim conjE)
  then have s1: "served_by example_world (ReadFile ''/srv/app/pricing/page.md'') ?r1"
    by simp
  let ?u = "\<lparr>url_host = ''localhost:3000'', url_pathname = ''/about'',
      url_href = ''http://localhost:3000/about''\<rparr>"
  let ?base = "\<lparr>url_host = ''localhost:3000'', url_pathname = ''/'',
      url_href = ''http://localhost:3000/''\<rparr>"
  let ?r = "\<lparr>status = 200, location = None, content_length = None,
      text_body = Some ''<main>About</main>''\<rparr>"
  let ?r2 = "\<lparr>content = ''converted: <main>About</main>'',
      cacheControl = ''private, max-age=300''\<rparr>"
  let ?tr1 = "[] @ [Attempt ''/about'' 0] @ page_reads example_world ''/about''"
  have miss: "lookup example_world ''/about'' = None" by code_simp
  have auto: "enableAutoConversion example_options" by code_simp
  have live: "live_response example_world example_options ''/about'' ?u ?base ?r" by code_simp
  have ok: "response_ok ?r" by (simp add: response_ok_def)
  have nd: "\<not> declared_too_large ?r" by (simp add: declared_too_large_def)
  have tb: "text_body ?r = Some ''<main>About</main>''" by simp
  have nb: "trim ''<main>About</main>'' \<noteq> []" by code_simp
  have le: "length ''<main>About</main>'' \<le> MAX_HTML_SIZE" by (simp add: MAX_HTML_SIZE_def)
  have cv: "htmlToMarkdown example_world ''<main>About</main>''
      = Some ''converted: <main>About</main>''"
    by (simp add: example_world_def)
  have "live_fetch example_world example_options ''/about'' 0 ?tr1 =
      (Finished (Some \<lparr>content = ''converted: <main>About</main>'',
          cacheControl = PRIVATE_CACHE\<rparr>),
       ?tr1 @ [Fetch ?u (fetch_headers example_world), ReadBody, Convert ''<main>About</main>''])"
    by (rule live_fetch_converted [OF live ok nd tb nb le cv])
  from resolve_miss_finished [OF miss auto this]
  have e2: "resolveMarkdown example_world example_options ''/about'' 0 [] =
      (Some ?r2,
       ?tr1 @ [Fetch ?u (fetch_headers example_world), ReadBody, Convert ''<main>About</main>''])"
    by (simp only: PRIVATE_CACHE_def)
  from cache_policy [THEN mp, OF e2]
  have "served_by example_world
      (last (?tr1 @ [Fetch ?u (fetch_headers example_world), ReadBody,
          Convert ''<main>About</main>''])) ?r2"
    by (elim conjE)
  then have s2: "served_by example_world (Convert ''<main>About</main>'') ?r2"
    by simp
  from e2 have f2: "fst (resolveMarkdown example_world example_options ''/about'' 0 []) = Some ?r2"
    by (simp only: fst_conv)
  show ?thesis by (rule conjI [OF e1 conjI [OF f2 conjI [OF s1 s2]]])
qed

lemma MAX_REDIRECTS_3: "MAX_REDIRECTS = 3"
  by (simp add: MAX_REDIRECTS_def)

text \<open>
  Claim C3. A resolution that starts at depth 0 makes at most 4 attempts: the first and
  at most 3 hops (the function is total, so every resolution returns). Following a
  frontmatter redirect and following a same-host HTTP redirect each continue with the
  depth raised by one. A chain of artifacts a, b, c, the last without redirect, gives
  the body of c after exactly 2 hops. Once the depth has reached 3, an artifact with a
  redirect and a live fetch answered by a redirect both give none: a fourth hop is not
  taken.
\<close>

theorem bounded_hops:
  "length (filter is_attempt (snd (resolveMarkdown w opts path 0 []))) \<le> 4
   \<and> (lookup w p = Some md \<and> redirect (parseFrontmatter md) = Some t \<and> t \<noteq> []
        \<and> isValidPath t \<and> d < MAX_REDIRECTS \<longrightarrow>
       resolveMarkdown w opts p d tr =
         resolveMarkdown w opts t (d + 1) (tr @ [Attempt p d] @ page_reads w p))
   \<and> (lookup w p = None \<and> enableAutoConversion opts \<and> live_response w opts p u base r
        \<and> 300 \<le> status r \<and> status r < 400 \<and> d < MAX_REDIRECTS
        \<and> location r = Some loc \<and> loc \<noteq> []
        \<and> parse_url w loc (Some (url_href u)) = Some target
        \<and> url_host target = url_host base \<longrightarrow>
       resolveMarkdown w opts p d tr =
         resolveMarkdown w opts (url_pathname target) (d + 1)
           (tr @ [Attempt p d] @ page_reads w p @ [Fetch u (fetch_headers w)]))
   \<and> (chain3 w a b c bodyC \<longrightarrow>
       resolveMarkdown w opts a 0 [] =
         (Some \<lparr>content = bodyC, cacheControl = PUBLIC_CACHE\<rparr>,
          [Attempt a 0] @ page_reads w a @ [Attempt b 1] @ page_reads w b
            @ [Attempt c 2] @ page_reads w c))
   \<and> (MAX_REDIRECTS \<le> d \<and> lookup w p = Some md
        \<and> redirect (parseFrontmatter md) = Some t \<and> t \<noteq> [] \<longrightarrow>
       fst (resolveMarkdown w opts p d tr) = None)
   \<and> (MAX_REDIRECTS \<le> d \<and> lookup w p = None \<and> enableAutoConversion opts
        \<and> live_response w opts p u base r \<and> 300 \<le> status r \<and> status r < 400 \<longrightarrow>
       fst (resolveMarkdown w opts p d tr) = None)"
proof -
  have bound: "length (filter is_attempt (snd (resolveMarkdown w opts path 0 []))) \<le> 4"
    using resolve_attempt_bound [of w opts path 0 "[]"] by (simp add: MAX_REDIRECTS_3)
  have fm: "resolveMarkdown w opts p d tr =
         resolveMarkdown w opts t (d + 1) (tr @ [Attempt p d] @ page_reads w p)"
    if "lookup w p = Some md" "redirect (parseFrontmatter md) = Some t" "t \<noteq> []"
      "isValidPath t" "d < MAX_REDIRECTS"
    using that by (rule resolve_found_follow)
  have http: "resolveMarkdown w opts p d tr =
         resolveMarkdown w opts (url_pathname target) (d + 1)
           (tr @ [Attempt p d] @ page_reads w p @ [Fetch u (fetch_headers w)])"
    if miss: "lookup w p = None" and auto: "enableAutoConversion opts"
      and live: "live_response w opts p u base r" "300 \<le> status r" "status r < 400"
        "d < MAX_REDIRECTS" "location r = Some loc" "loc \<noteq> []"
        "parse_url w loc (Some (url_href u)) = Some target" "url_host target = url_host base"
  proof -
    have "live_fetch w opts p d (tr @ [Attempt p d] @ page_reads w p) =
        (Follow (url_pathname target),
         (tr @ [Attempt p d] @ page_reads w p) @ [Fetch u (fetch_headers w)])"
      using live by (rule live_fetch_redirect_same_host)
    from resolve_miss_follow [OF miss auto this] show ?thesis by simp
  qed
  have chain: "resolveMarkdown w opts a 0 [] =
         (Some \<lparr>content = bodyC, cacheControl = PUBLIC_CACHE\<rparr>,
          [Attempt a 0] @ page_reads w a @ [Attempt b 1] @ page_reads w b
            @ [Attempt c 2] @ page_reads w c)"
    if "chain3 w a b c bodyC"
  proof -
    from that obtain mdA mdB mdC where
      A: "lookup w a = Some mdA" "redirect (parseFrontmatter mdA) = Some b" "b \<noteq> []"
        "isValidPath b"
      and B: "lookup w b = Some mdB" "redirect (parseFrontmatter mdB) = Some c" "c \<noteq> []"
        "isValidPath c"
      and C: "lookup w c = Some mdC" "redirect (parseFrontmatter mdC) = None"
        "body (parseFrontmatter mdC) = bodyC"
      by (auto simp: chain3_def split: option.splits)
    have "resolveMarkdown w opts a 0 [] =
        resolveMarkdown w opts b (0 + 1) ([] @ [Attempt a 0] @ page_reads w a)"
      by (rule resolve_found_follow [OF A]) (simp add: MAX_REDIRECTS_3)
    also have "\<dots> = resolveMarkdown w opts c (1 + 1)
        (([] @ [Attempt a 0] @ page_reads w a) @ [Attempt b 1] @ page_reads w b)"
      unfolding add_0 by (rule resolve_found_follow [OF B]) (simp add: MAX_REDIRECTS_3)
    also have "\<dots> = (Some \<lparr>content = body (parseFrontmatter mdC), cacheControl = PUBLIC_CACHE\<rparr>,
        (([] @ [Attempt a 0] @ page_reads w a) @ [Attempt b 1] @ page_reads w b)
          @ [Attempt c (1 + 1)] @ page_reads w c)"
      using C(2) by (intro resolve_found_final [OF C(1)]) simp
    finally show ?thesis using C(3) by simp
  qed
  have stop_fm: "fst (resolveMarkdown w opts p d tr) = None"
    if "MAX_REDIRECTS \<le> d" "lookup w p = Some md" "redirect (parseFrontmatter md) = Some t"
      "t \<noteq> []"
    using resolve_found_stop [OF that(2) that(3) that(4), of d opts tr] that(1) by simp
  have stop_http: "fst (resolveMarkdown w opts p d tr) = None"
    if "MAX_REDIRECTS \<le> d" and miss: "lookup w p = None" and auto: "enableAutoConversion opts"
      and live: "live_response w opts p u base r" "300 \<le> status r" "status r < 400"
  proof -
    have "live_fetch w opts p d (tr @ [Attempt p d] @ page_reads w p) =
        (Finished None, (tr @ [Attempt p d] @ page_reads w p) @ [Fetch u (fetch_headers w)])"
      using live that(1) by (rule live_fetch_redirect_at_bound)
    from resolve_miss_finished [OF miss auto this] show ?thesis by simp
  qed
  have c2: "lookup w p = Some md \<and> redirect (parseFrontmatter md) = Some t \<and> t \<noteq> []
        \<and> isValidPath t \<and> d < MAX_REDIRECTS \<longrightarrow>
       resolveMarkdown w opts p d tr =
         resolveMarkdown w opts t (d + 1) (tr @ [Attempt p d] @ page_reads w p)"
    using fm by blast
  have c3: "lookup w p = None \<and> enableAutoConversion opts \<and> live_response w opts p u base r
        \<and> 300 \<le> status r \<and> status r < 400 \<and> d < MAX_REDIRECTS
        \<and> location r = Some loc \<and> loc \<noteq> []
        \<and> parse_url w loc (Some (url_href u)) = Some target
        \<and> url_host target = url_host base \<longrightarrow>
       resolveMarkdown w opts p d tr =
         resolveMarkdown w opts (url_pathname target) (d + 1)
           (tr @ [Attempt p d] @ page_reads w p @ [Fetch u (fetch_headers w)])"
    using http by blast
  have c4: "chain3 w a b c bodyC \<longrightarrow>
       resolveMarkdown w opts a 0 [] =
         (Some \<lparr>content = bodyC, cacheControl = PUBLIC_CACHE\<rparr>,
          [Attempt a 0] @ page_reads w a @ [Attempt b 1] @ page_reads w b
            @ [Attempt c 2] @ page_reads w c)"
    using chain by blast
  have c5: "MAX_REDIRECTS \<le> d \<and> lookup w p = Some md
        \<and> redirect (parseFrontmatter md) = Some t \<and> t \<noteq> [] \<longrightarrow>
       fst (resolveMarkdown w opts p d tr) = None"
    using stop_fm by blast
  have c6: "MAX_REDIRECTS \<le> d \<and> lookup w p = None \<and> enableAutoConversion opts
        \<and> live_response w opts p u base r \<and> 300 \<le> status r \<and> status r < 400 \<longrightarrow>
       fst (resolveMarkdown w opts p d tr) = None"
    using stop_http by blast
  show ?thesis
    by (rule conjI [OF bound conjI [OF c2 conjI [OF c3 conjI [OF c4 conjI [OF c5 c6]]]]])
qed


theorem bounded_hops_witness:
  "resolveMarkdown example_world example_options ''/a'' 0 [] =
     (Some \<lparr>content = ''# C'', cacheControl = PUBLIC_CACHE\<rparr>,
      [Attempt ''/a'' 0] @ page_reads example_world ''/a''
        @ [Attempt ''/b'' 1] @ page_reads example_world ''/b''
        @ [Attempt ''/c'' 2] @ page_reads example_world ''/c'')
   \<and> fst (resolveMarkdown example_world example_options ''/h0'' 0 []) = None
   \<and> fst (resolveMarkdown example_world example_options ''/old'' 3 []) = None
   \<and> resolveMarkdown example_world example_options ''/moved'' 0 [] =
       resolveMarkdown example_world example_options ''/pricing'' 1
         ([Attempt ''/moved'' 0] @ page_reads example_world ''/moved''
           @ [Fetch \<lparr>url_host = ''localhost:3000'', url_pathname = ''/moved'',
                     url_href = ''http://localhost:3000/moved''\<rparr>
                (fetch_headers example_world)])"
proof -
  let ?W = example_world and ?O = example_options
  \<comment> \<open>the chain a, b, c\<close>
  have ch: "chain3 ?W ''/a'' ''/b'' ''/c'' ''# C''" by code_simp
  note a = bounded_hops [THEN conjunct2, THEN conjunct2, THEN conjunct2, THEN conjunct1,
      THEN mp, OF ch, of ?O]
  \<comment> \<open>the chain h0, h1, h2, h3, h4\<close>
  let ?T0 = "[Attempt ''/h0'' 0] @ page_reads ?W ''/h0''"
  let ?T1 = "?T0 @ [Attempt ''/h1'' 1] @ page_reads ?W ''/h1''"
  let ?T2 = "?T1 @ [Attempt ''/h2'' 2] @ page_reads ?W ''/h2''"
  have h0: "lookup ?W ''/h0'' = Some ''---\<newline>redirect: /h1\<newline>---\<newline>''
      \<and> redirect (parseFrontmatter ''---\<newline>redirect: /h1\<newline>---\<newline>'') = Some ''/h1''
      \<and> ''/h1'' \<noteq> [] \<and> isValidPath ''/h1'' \<and> 0 < MAX_REDIRECTS"
    by code_simp
  have h1: "lookup ?W ''/h1'' = Some ''---\<newline>redirect: /h2\<newline>---\<newline>''
      \<and> redirect (parseFrontmatter ''---\<newline>redirect: /h2\<newline>---\<newline>'') = Some ''/h2''
      \<and> ''/h2'' \<noteq> [] \<and> isValidPath ''/h2'' \<and> 1 < MAX_REDIRECTS"
    by code_simp
  have h2: "lookup ?W ''/h2'' = Some ''---\<newline>redirect: /h3\<newline>---\<newline>''
      \<and> redirect (parseFrontmatter ''---\<newline>redirect: /h3\<newline>---\<newline>'') = Some ''/h3''
      \<and> ''/h3'' \<noteq> [] \<and> isValidPath ''/h3'' \<and> 2 < MAX_REDIRECTS"
    by code_simp
  have h3: "MAX_REDIRECTS \<le> 3 \<and> lookup ?W ''/h3'' = Some ''---\<newline>redirect: /h4\<newline>---\<newline>''
      \<and> redirect (parseFrontmatter ''---\<newline>redirect: /h4\<newline>---\<newline>'') = Some ''/h4''
      \<and> ''/h4'' \<noteq> []"
    by code_simp
  note follow = bounded_hops [THEN conjunct2, THEN conjunct1, THEN mp]
  have s0: "resolveMarkdown ?W ?O ''/h0'' 0 [] = resolveMarkdown ?W ?O ''/h1'' 1 ?T0"
    using follow [OF h0, of ?O "[]"] by simp
  have s1: "resolveMarkdown ?W ?O ''/h1'' 1 ?T0 = resolveMarkdown ?W ?O ''/h2'' 2 ?T1"
    using follow [OF h1, of ?O ?T0] by (simp add: eval_nat_numeral)
  have s2: "resolveMarkdown ?W ?O ''/h2'' 2 ?T1 = resolveMarkdown ?W ?O ''/h3'' 3 ?T2"
    using follow [OF h2, of ?O ?T1] by (simp add: eval_nat_numeral)
  have s3: "fst (resolveMarkdown ?W ?O ''/h3'' 3 ?T2) = None"
    by (rule bounded_hops [THEN conjunct2, THEN conjunct2, THEN conjunct2, THEN conjunct2,
          THEN conjunct1, THEN mp, OF h3])
  have b: "fst (resolveMarkdown ?W ?O ''/h0'' 0 []) = None"
    using s3 by (simp only: s0 s1 s2)
  \<comment> \<open>an HTTP redirect met after three hops\<close>
  let ?base = "\<lparr>url_host = ''localhost:3000'', url_pathname = ''/'',
      url_href = ''http://localhost:3000/''\<rparr>"
  let ?uo = "\<lparr>url_host = ''localhost:3000'', url_pathname = ''/old'',
      url_href = ''http://localhost:3000/old''\<rparr>"
  let ?ro = "\<lparr>status = 302, location = Some ''http://evil.example/steal'',
      content_length = None, text_body = Some []\<rparr>"
  have o: "MAX_REDIRECTS \<le> 3 \<and> lookup ?W ''/old'' = None \<and> enableAutoConversion ?O
      \<and> live_response ?W ?O ''/old'' ?uo ?base ?ro \<and> 300 \<le> status ?ro \<and> status ?ro < 400"
    by code_simp
  have c: "fst (resolveMarkdown ?W ?O ''/old'' 3 []) = None"
    by (rule bounded_hops [THEN conjunct2, THEN conjunct2, THEN conjunct2, THEN conjunct2,
          THEN conjunct2, THEN mp, OF o])
  \<comment> \<open>an HTTP redirect to the same host is followed with the depth raised\<close>
  let ?um = "\<lparr>url_host = ''localhost:3000'', url_pathname = ''/moved'',
      url_href = ''http://localhost:3000/moved''\<rparr>"
  let ?rm = "\<lparr>status = 301, location = Some ''/pricing'', content_length = None,
      text_body = Some []\<rparr>"
  let ?tm = "\<lparr>url_host = ''localhost:3000'', url_pathname = ''/pricing'',
      url_href = ''http://localhost:3000/pricing''\<rparr>"
  have m: "lookup ?W ''/moved'' = None \<and> enableAutoConversion ?O
      \<and> live_response ?W ?O ''/moved'' ?um ?base ?rm
      \<and> 300 \<le> status ?rm \<and> status ?rm < 400 \<and> 0 < MAX_REDIRECTS
      \<and> location ?rm = Some ''/pricing'' \<and> ''/pricing'' \<noteq> []
      \<and> parse_url ?W ''/pricing'' (Some (url_href ?um)) = Some ?tm
      \<and> url_host ?tm = url_host ?base"
    by code_simp
  have d: "resolveMarkdown ?W ?O ''/moved'' 0 [] =
       resolveMarkdown ?W ?O ''/pricing'' 1
         ([Attempt ''/moved'' 0] @ page_reads ?W ''/moved'' @ [Fetch ?um (fetch_headers ?W)])"
    using bounded_hops [THEN conjunct2, THEN conjunct2, THEN conjunct1, THEN mp, OF m, of "[]"]
    by simp
  show ?thesis by (rule conjI [OF a conjI [OF b conjI [OF c d]]])
qed

text \<open>
  Claim C2. When the curated lookup misses and the live fetch is answered by a redirect
  whose location resolves to a host other than the origin's, the result is none and
  the events of the call end with that one fetch, which went to the origin's host with
  the forwarded cookie: the redirect is not followed, no body is read and nothing is
  fetched again. The other rejections give the same none: a fetch URL on another host
  (no fetch is made), the hop bound reached at a frontmatter redirect or at an HTTP
  redirect, a declared or an actual size over the ceiling; and so do a genuine miss
  (a status that is neither success nor redirect) and a miss with conversion disabled.
\<close>

theorem security_rejections:
  "(lookup w p = None \<and> enableAutoConversion opts \<and> live_response w opts p u base r
      \<and> 300 \<le> status r \<and> status r < 400 \<and> location r = Some loc
      \<and> parse_url w loc (Some (url_href u)) = Some target
      \<and> url_host target \<noteq> url_host base \<longrightarrow>
     resolveMarkdown w opts p d tr =
       (None, tr @ [Attempt p d] @ page_reads w p @ [Fetch u (fetch_headers w)]))
   \<and> (lookup w p = None \<and> enableAutoConversion opts
      \<and> parse_url w p (Some (baseUrl_of w opts)) = Some u
      \<and> parse_url w (baseUrl_of w opts) None = Some base
      \<and> url_host u \<noteq> url_host base \<longrightarrow>
     resolveMarkdown w opts p d tr = (None, tr @ [Attempt p d] @ page_reads w p))
   \<and> (MAX_REDIRECTS \<le> d \<and> lookup w p = Some md
      \<and> redirect (parseFrontmatter md) = Some t \<and> t \<noteq> [] \<longrightarrow>
     fst (resolveMarkdown w opts p d tr) = None)
   \<and> (MAX_REDIRECTS \<le> d \<and> lookup w p = None \<and> enableAutoConversion opts
      \<and> live_response w opts p u base r \<and> 300 \<le> status r \<and> status r < 400 \<longrightarrow>
     fst (resolveMarkdown w opts p d tr) = None)
   \<and> (lookup w p = None \<and> enableAutoConversion opts \<and> live_response w opts p u base r
      \<and> response_ok r \<and> declared_too_large r \<longrightarrow>
     fst (resolveMarkdown w opts p d tr) = None)
   \<and> (lookup w p = None \<and> enableAutoConversion opts \<and> live_response w opts p u base r
      \<and> response_ok r \<and> \<not> declared_too_large r \<and> text_body r = Some html
      \<and> MAX_HTML_SIZE < length html \<longrightarrow>
     fst (resolveMarkdown w opts p d tr) = None)
   \<and> (lookup w p = None \<and> enableAutoConversion opts \<and> live_response w opts p u base r
      \<and> \<not> response_ok r \<and> \<not> (300 \<le> status r \<and> status r < 400) \<longrightarrow>
     fst (resolveMarkdown w opts p d tr) = None)
   \<and> (lookup w p = None \<and> \<not> enableAutoConversion opts \<longrightarrow>
     fst (resolveMarkdown w opts p d tr) = None)"
proof -
  let ?tr1 = "tr @ [Attempt p d] @ page_reads w p"
  have finished: "resolveMarkdown w opts p d tr = (res, ?tr1 @ evs)"
    if "lookup w p = None" "enableAutoConversion opts"
      "live_fetch w opts p d ?tr1 = (Finished res, ?tr1 @ evs)" for res evs
    using that by (rule resolve_miss_finished)
  have c1: "lookup w p = None \<and> enableAutoConversion opts \<and> live_response w opts p u base r
      \<and> 300 \<le> status r \<and> status r < 400 \<and> location r = Some loc
      \<and> parse_url w loc (Some (url_href u)) = Some target
      \<and> url_host target \<noteq> url_host base \<longrightarrow>
     resolveMarkdown w opts p d tr =
       (None, tr @ [Attempt p d] @ page_reads w p @ [Fetch u (fetch_headers w)])"
  proof (intro impI, elim conjE)
    assume h: "lookup w p = None" "enableAutoConversion opts"
      and l: "live_response w opts p u base r" "300 \<le> status r" "status r < 400"
        "location r = Some loc" "parse_url w loc (Some (url_href u)) = Some target"
        "url_host target \<noteq> url_host base"
    have "live_fetch w opts p d ?tr1 = (Finished None, ?tr1 @ [Fetch u (fetch_headers w)])"
      using l by (rule live_fetch_redirect_foreign)
    from finished [OF h this]
    show "resolveMarkdown w opts p d tr =
       (None, tr @ [Attempt p d] @ page_reads w p @ [Fetch u (fetch_headers w)])"
      by simp
  qed
  have c2: "lookup w p = None \<and> enableAutoConversion opts
      \<and> parse_url w p (Some (baseUrl_of w opts)) = Some u
      \<and> parse_url w (baseUrl_of w opts) None = Some base
      \<and> url_host u \<noteq> url_host base \<longrightarrow>
     resolveMarkdown w opts p d tr = (None, tr @ [Attempt p d] @ page_reads w p)"
  proof (intro impI, elim conjE)
    assume h: "lookup w p = None" "enableAutoConversion opts"
      and l: "parse_url w p (Some (baseUrl_of w opts)) = Some u"
        "parse_url w (baseUrl_of w opts) None = Some base" "url_host u \<noteq> url_host base"
    have "live_fetch w opts p d ?tr1 = (Finished None, ?tr1)"
      using l by (rule live_fetch_host_mismatch)
    with h show "resolveMarkdown w opts p d tr = (None, tr @ [Attempt p d] @ page_reads w p)"
      by (rule resolve_miss_finished)
  qed
  have c3: "MAX_REDIRECTS \<le> d \<and> lookup w p = Some md
      \<and> redirect (parseFrontmatter md) = Some t \<and> t \<noteq> [] \<longrightarrow>
     fst (resolveMarkdown w opts p d tr) = None"
    using resolve_found_stop [of w p md t d opts tr] by simp
  have c4: "MAX_REDIRECTS \<le> d \<and> lookup w p = None \<and> enableAutoConversion opts
      \<and> live_response w opts p u base r \<and> 300 \<le> status r \<and> status r < 400 \<longrightarrow>
     fst (resolveMarkdown w opts p d tr) = None"
  proof (intro impI, elim conjE)
    assume b: "MAX_REDIRECTS \<le> d" and h: "lookup w p = None" "enableAutoConversion opts"
      and l: "live_response w opts p u base r" "300 \<le> status r" "status r < 400"
    have "live_fetch w opts p d ?tr1 = (Finished None, ?tr1 @ [Fetch u (fetch_headers w)])"
      using l b by (rule live_fetch_redirect_at_bound)
    from finished [OF h this] show "fst (resolveMarkdown w opts p d tr) = None" by simp
  qed
  have c5: "lookup w p = None \<and> enableAutoConversion opts \<and> live_response w opts p u base r
      \<and> response_ok r \<and> declared_too_large r \<longrightarrow>
     fst (resolveMarkdown w opts p d tr) = None"
  proof (intro impI, elim conjE)
    assume h: "lookup w p = None" "enableAutoConversion opts"
      and l: "live_response w opts p u base r" "response_ok r" "declared_too_large r"
    have "live_fetch w opts p d ?tr1 = (Finished None, ?tr1 @ [Fetch u (fetch_headers w)])"
      using l by (rule live_fetch_declared_too_large)
    from finished [OF h this] show "fst (resolveMarkdown w opts p d tr) = None" by simp
  qed
  have c6: "lookup w p = None \<and> enableAutoConversion opts \<and> live_response w opts p u base r
      \<and> response_ok r \<and> \<not> declared_too_large r \<and> text_body r = Some html
      \<and> MAX_HTML_SIZE < length html \<longrightarrow>
     fst (resolveMarkdown w opts p d tr) = None"
  proof (intro impI, elim conjE)
    assume h: "lookup w p = None" "enableAutoConversion opts"
      and l: "live_response w opts p u base r" "response_ok r" "\<not> declared_too_large r"
        "text_body r = Some html"
      and big: "MAX_HTML_SIZE < length html"
    from big have "trim html = [] \<or> MAX_HTML_SIZE < length html" ..
    with l have "live_fetch w opts p d ?tr1 =
        (Finished None, ?tr1 @ [Fetch u (fetch_headers w), ReadBody])"
      by (rule live_fetch_body_rejected)
    from finished [OF h this] show "fst (resolveMarkdown w opts p d tr) = None" by simp
  qed
  have c7: "lookup w p = None \<and> enableAutoConversion opts \<and> live_response w opts p u base r
      \<and> \<not> response_ok r \<and> \<not> (300 \<le> status r \<and> status r < 400) \<longrightarrow>
     fst (resolveMarkdown w opts p d tr) = None"
  proof (intro impI, elim conjE)
    assume h: "lookup w p = None" "enableAutoConversion opts"
      and l: "live_response w opts p u base r" "\<not> response_ok r"
        "\<not> (300 \<le> status r \<and> status r < 400)"
    have "live_fetch w opts p d ?tr1 = (Finished None, ?tr1 @ [Fetch u (fetch_headers w)])"
      using l by (rule live_fetch_not_ok)
    from finished [OF h this] show "fst (resolveMarkdown w opts p d tr) = None" by simp
  qed
  have c8: "lookup w p = None \<and> \<not> enableAutoConversion opts \<longrightarrow>
     fst (resolveMarkdown w opts p d tr) = None"
    using resolve_miss_disabled [of w p opts d tr] by simp
  show ?thesis
    by (rule conjI [OF c1 conjI [OF c2 conjI [OF c3 conjI [OF c4 conjI [OF c5
          conjI [OF c6 conjI [OF c7 c8]]]]]]])
qed


theorem security_rejections_witness:
  "resolveMarkdown example_world example_options ''/old'' 0 [] =
     (None, [Attempt ''/old'' 0] @ page_reads example_world ''/old''
        @ [Fetch \<lparr>url_host = ''localhost:3000'', url_pathname = ''/old'',
                  url_href = ''http://localhost:3000/old''\<rparr>
             [(''x-llm-internal-fetch'', ''1''), (''Accept'', ''text/html''),
              (''Cookie'', ''session=abc'')]])
   \<and> fst (resolveMarkdown example_world example_options ''//evil.example/x'' 0 []) = None
   \<and> fst (resolveMarkdown example_world example_options ''/h3'' 3 []) = None
   \<and> fst (resolveMarkdown example_world example_options ''/old'' 3 []) = None
   \<and> fst (resolveMarkdown example_world example_options ''/big'' 0 []) = None
   \<and> fst (resolveMarkdown example_world example_options ''/gone'' 0 []) = None"
proof -
  let ?W = example_world and ?O = example_options
  let ?base = "\<lparr>url_host = ''localhost:3000'', url_pathname = ''/'',
      url_href = ''http://localhost:3000/''\<rparr>"
  \<comment> \<open>a redirect to a foreign host\<close>
  let ?uo = "\<lparr>url_host = ''localhost:3000'', url_pathname = ''/old'',
      url_href = ''http://localhost:3000/old''\<rparr>"
  let ?ro = "\<lparr>status = 302, location = Some ''http://evil.example/steal'',
      content_length = None, text_body = Some []\<rparr>"
  let ?to = "\<lparr>url_host = ''evil.example'', url_pathname = ''/steal'',
      url_href = ''http://evil.example/steal''\<rparr>"
  have o: "lookup ?W ''/old'' = None \<and> enableAutoConversion ?O
      \<and> live_response ?W ?O ''/old'' ?uo ?base ?ro
      \<and> 300 \<le> status ?ro \<and> status ?ro < 400
      \<and> location ?ro = Some ''http://evil.example/steal''
      \<and> parse_url ?W ''http://evil.example/steal'' (Some (url_href ?uo)) = Some ?to
      \<and> url_host ?to \<noteq> url_host ?base"
    by code_simp
  have fh: "fetch_headers ?W = [(''x-llm-internal-fetch'', ''1''), (''Accept'', ''text/html''),
      (''Cookie'', ''session=abc'')]"
    by code_simp
  have a: "resolveMarkdown ?W ?O ''/old'' 0 [] =
     (None, [Attempt ''/old'' 0] @ page_reads ?W ''/old''
        @ [Fetch ?uo [(''x-llm-internal-fetch'', ''1''), (''Accept'', ''text/html''),
              (''Cookie'', ''session=abc'')]])"
    using security_rejections [THEN conjunct1, THEN mp, OF o, of 0 "[]"]
    unfolding fh by simp
  \<comment> \<open>a path that resolves to another host\<close>
  let ?ue = "\<lparr>url_host = ''evil.example'', url_pathname = ''/x'',
      url_href = ''http://evil.example/x''\<rparr>"
  have e: "lookup ?W ''//evil.example/x'' = None \<and> enableAutoConversion ?O
      \<and> parse_url ?W ''//evil.example/x'' (Some (baseUrl_of ?W ?O)) = Some ?ue
      \<and> parse_url ?W (baseUrl_of ?W ?O) None = Some ?base
      \<and> url_host ?ue \<noteq> url_host ?base"
    by code_simp
  have b: "fst (resolveMarkdown ?W ?O ''//evil.example/x'' 0 []) = None"
    using security_rejections [THEN conjunct2, THEN conjunct1, THEN mp, OF e, of 0 "[]"]
    by (simp only: fst_conv)
  \<comment> \<open>the hop bound, at a frontmatter redirect and at an HTTP redirect\<close>
  have h3: "MAX_REDIRECTS \<le> 3 \<and> lookup ?W ''/h3'' = Some ''---\<newline>redirect: /h4\<newline>---\<newline>''
      \<and> redirect (parseFrontmatter ''---\<newline>redirect: /h4\<newline>---\<newline>'') = Some ''/h4''
      \<and> ''/h4'' \<noteq> []"
    by code_simp
  have c: "fst (resolveMarkdown ?W ?O ''/h3'' 3 []) = None"
    by (rule security_rejections [THEN conjunct2, THEN conjunct2, THEN conjunct1, THEN mp,
          OF h3])
  have o3: "MAX_REDIRECTS \<le> 3 \<and> lookup ?W ''/old'' = None \<and> enableAutoConversion ?O
      \<and> live_response ?W ?O ''/old'' ?uo ?base ?ro \<and> 300 \<le> status ?ro \<and> status ?ro < 400"
    by code_simp
  have d: "fst (resolveMarkdown ?W ?O ''/old'' 3 []) = None"
    by (rule security_rejections [THEN conjunct2, THEN conjunct2, THEN conjunct2,
          THEN conjunct1, THEN mp, OF o3])
  \<comment> \<open>a declared length over the ceiling\<close>
  let ?ub = "\<lparr>url_host = ''localhost:3000'', url_pathname = ''/big'',
      url_href = ''http://localhost:3000/big''\<rparr>"
  let ?rb = "\<lparr>status = 200, location = None, content_length = Some ''5242881'',
      text_body = Some ''x''\<rparr>"
  have g1: "lookup ?W ''/big'' = None \<and> enableAutoConversion ?O
      \<and> live_response ?W ?O ''/big'' ?ub ?base ?rb \<and> response_ok ?rb"
    by code_simp
  have g2: "declared_too_large ?rb"
    by (simp add: declared_too_large_def parseInt10_def is_ws_def is_digit_def decimal_def
        digit_val_def MAX_HTML_SIZE_def)
  from g1 g2 have g: "lookup ?W ''/big'' = None \<and> enableAutoConversion ?O
      \<and> live_response ?W ?O ''/big'' ?ub ?base ?rb \<and> response_ok ?rb \<and> declared_too_large ?rb"
    by (elim conjE) (intro conjI)
  have f: "fst (resolveMarkdown ?W ?O ''/big'' 0 []) = None"
    by (rule security_rejections [THEN conjunct2, THEN conjunct2, THEN conjunct2,
          THEN conjunct2, THEN conjunct1, THEN mp, OF g])
  \<comment> \<open>a genuine miss: no artifact and a 404\<close>
  let ?ug = "\<lparr>url_host = ''localhost:3000'', url_pathname = ''/gone'',
      url_href = ''http://localhost:3000/gone''\<rparr>"
  let ?rg = "\<lparr>status = 404, location = None, content_length = None,
      text_body = Some ''not found''\<rparr>"
  have n: "lookup ?W ''/gone'' = None \<and> enableAutoConversion ?O
      \<and> live_response ?W ?O ''/gone'' ?ug ?base ?rg
      \<and> \<not> response_ok ?rg \<and> \<not> (300 \<le> status ?rg \<and> status ?rg < 400)"
    by code_simp
  have m: "fst (resolveMarkdown ?W ?O ''/gone'' 0 []) = None"
    by (rule security_rejections [THEN conjunct2, THEN conjunct2, THEN conjunct2,
          THEN conjunct2, THEN conjunct2, THEN conjunct2, THEN conjunct1, THEN mp, OF n])
  show ?thesis
    by (rule conjI [OF a conjI [OF b conjI [OF c conjI [OF d conjI [OF f m]]]]])
qed

end
